theory Spec2Isabelle
  imports Complex_Main "HOL-Library.Word"
begin

unbundle bit_operations_syntax

section \<open>RoboEye: the per-frame tracking and navigation loop of main.py\<close>

text \<open>
  The program is one \<^verbatim>\<open>while True\<close> loop over camera frames. Its own logic is the
  colour iteration with the area threshold, the bounding-box centroid, the navigation
  instruction and the cooldown gate that replaces the target. Everything else is a call
  into OpenCV, NumPy, \<^verbatim>\<open>random\<close> or \<^verbatim>\<open>time\<close>.

  The embedding keeps the program's variables and control flow. Library calls with an
  exact, simple meaning are written out (\<^verbatim>\<open>cv2.flip\<close>, \<^verbatim>\<open>cv2.inRange\<close>,
  \<^verbatim>\<open>cv2.bitwise_or\<close>, \<^verbatim>\<open>cv2.contourArea\<close>, \<^verbatim>\<open>cv2.boundingRect\<close>,
  \<^verbatim>\<open>random.randint\<close>). The image-processing calls whose result depends on
  kernels and border rules (\<^verbatim>\<open>cvtColor\<close>, \<^verbatim>\<open>GaussianBlur\<close>, \<^verbatim>\<open>erode\<close>,
  \<^verbatim>\<open>dilate\<close>, \<^verbatim>\<open>findContours\<close>) are parameters, collected in the record
  \<open>cvlib\<close>: every theorem holds for any implementation of them. The random source is a
  function from the index of the draw to a natural number, and the readings of
  \<^verbatim>\<open>time.time()\<close> are inputs of the frame. Times are real numbers; the rounding of
  the floating-point subtraction and of \<^verbatim>\<open>np.hypot\<close> is not modelled.
\<close>

subsection \<open>Errors\<close>

text \<open>
  The program has no \<^verbatim>\<open>try\<close>: an exception raised by a library call ends the
  process. \<open>ValueError\<close> is raised by \<^verbatim>\<open>random.randint\<close> on an empty range,
  \<open>CvError\<close> is \<^verbatim>\<open>cv2.error\<close>, and \<open>AttributeError\<close> is raised by
  \<^verbatim>\<open>frame.shape\<close> when \<^verbatim>\<open>frame\<close> is \<^verbatim>\<open>None\<close>.
\<close>

datatype error = ValueError | CvError | AttributeError

subsection \<open>Images, masks and contours\<close>

type_synonym pixel = "8 word \<times> 8 word \<times> 8 word"
type_synonym image = "pixel list list"
type_synonym mask = "8 word list list"
type_synonym bound = "int \<times> int \<times> int"
type_synonym point = "int \<times> int"
type_synonym contour = "point list"

text \<open>\<^verbatim>\<open>frame.shape[:2]\<close>: the number of rows and the number of columns.\<close>

definition shape :: "'a list list \<Rightarrow> int \<times> int" where
  "shape img = (int (length img), (case img of [] \<Rightarrow> 0 | r # _ \<Rightarrow> int (length r)))"

definition empty_image :: "'a list list \<Rightarrow> bool" where
  "empty_image img = (fst (shape img) = 0 \<or> snd (shape img) = 0)"

text \<open>
  \<^verbatim>\<open>cv2.flip(frame, 1)\<close> mirrors every row. For an empty array it returns
  \<^verbatim>\<open>None\<close>.
\<close>

definition mirror :: "image \<Rightarrow> image" where
  "mirror img = map rev img"

definition flip :: "image \<Rightarrow> image option" where
  "flip img = (if empty_image img then None else Some (mirror img))"

record cvlib =
  bgr2hsv :: "pixel \<Rightarrow> pixel"
  GaussianBlur :: "mask \<Rightarrow> mask"
  erode :: "mask \<Rightarrow> mask"
  dilate :: "mask \<Rightarrow> mask"
  findContours :: "mask \<Rightarrow> contour list"

text \<open>
  \<^verbatim>\<open>cv2.cvtColor(frame, cv2.COLOR_BGR2HSV)\<close> converts pixel by pixel and asserts that
  its source is not empty.
\<close>

definition cvtColor :: "cvlib \<Rightarrow> image \<Rightarrow> error + image" where
  "cvtColor cv img =
     (if empty_image img then Inl CvError else Inr (map (map (bgr2hsv cv)) img))"

subsection \<open>The colour table\<close>

text \<open>A dict iterates in insertion order: Red, Blue, Green, Yellow.\<close>

definition colors :: "(string \<times> (bound \<times> bound) list) list" where
  "colors =
     [(''Red'', [((0, 120, 70), (10, 255, 255)), ((170, 120, 70), (180, 255, 255))]),
      (''Blue'', [((94, 80, 2), (126, 255, 255))]),
      (''Green'', [((35, 100, 100), (85, 255, 255))]),
      (''Yellow'', [((20, 100, 100), (30, 255, 255))])]"

subsection \<open>Building the mask of one colour\<close>

definition in_bounds :: "bound \<Rightarrow> bound \<Rightarrow> pixel \<Rightarrow> bool" where
  "in_bounds lower upper p =
     (case lower of (l0, l1, l2) \<Rightarrow> case upper of (u0, u1, u2) \<Rightarrow> case p of (h, s, v) \<Rightarrow>
        l0 \<le> uint h \<and> uint h \<le> u0 \<and> l1 \<le> uint s \<and> uint s \<le> u1 \<and>
        l2 \<le> uint v \<and> uint v \<le> u2)"

definition inRange :: "image \<Rightarrow> bound \<Rightarrow> bound \<Rightarrow> mask" where
  "inRange hsv lower upper = map (map (\<lambda>p. if in_bounds lower upper p then 255 else 0)) hsv"

definition bitwise_or :: "mask \<Rightarrow> mask \<Rightarrow> mask" where
  "bitwise_or a b = map2 (map2 (OR)) a b"

text \<open>
  The inner loop over the ranges of a colour. The mask starts as \<^verbatim>\<open>None\<close> and stays
  so when the colour has no range.
\<close>

fun build_mask :: "image \<Rightarrow> (bound \<times> bound) list \<Rightarrow> mask option \<Rightarrow> mask option" where
  "build_mask hsv [] msk = msk"
| "build_mask hsv ((lower, upper) # ranges) msk =
     (let part_mask = inRange hsv lower upper
      in build_mask hsv ranges
           (Some (case msk of None \<Rightarrow> part_mask | Some m \<Rightarrow> bitwise_or m part_mask)))"

definition clean_mask :: "cvlib \<Rightarrow> mask \<Rightarrow> mask" where
  "clean_mask cv msk = dilate cv (erode cv (GaussianBlur cv msk))"

subsection \<open>Contour area and bounding rectangle\<close>

text \<open>
  \<^verbatim>\<open>cv2.contourArea\<close> is half the absolute value of the shoelace sum over the closed
  polygon; \<^verbatim>\<open>cv2.boundingRect\<close> of integer points is the smallest upright rectangle of
  pixels that holds them, so its width is \<open>xmax - xmin + 1\<close>.
\<close>

fun shoelace :: "point \<Rightarrow> contour \<Rightarrow> int" where
  "shoelace prev [] = 0"
| "shoelace prev (p # ps) = (fst prev * snd p - fst p * snd prev) + shoelace p ps"

definition contourArea :: "contour \<Rightarrow> real" where
  "contourArea c = (if c = [] then 0 else \<bar>real_of_int (shoelace (last c) c)\<bar> / 2)"

fun min_list_from :: "int \<Rightarrow> int list \<Rightarrow> int" where
  "min_list_from m [] = m"
| "min_list_from m (x # xs) = min_list_from (min m x) xs"

fun max_list_from :: "int \<Rightarrow> int list \<Rightarrow> int" where
  "max_list_from m [] = m"
| "max_list_from m (x # xs) = max_list_from (max m x) xs"

definition boundingRect :: "contour \<Rightarrow> int \<times> int \<times> int \<times> int" where
  "boundingRect c =
     (case c of
        [] \<Rightarrow> (0, 0, 0, 0)
      | (x0, y0) # ps \<Rightarrow>
          (let xmin = min_list_from x0 (map fst ps); xmax = max_list_from x0 (map fst ps);
               ymin = min_list_from y0 (map snd ps); ymax = max_list_from y0 (map snd ps)
           in (xmin, ymin, xmax - xmin + 1, ymax - ymin + 1)))"

subsection \<open>Selecting the blob of one colour\<close>

text \<open>
  \<^verbatim>\<open>max(contours, key=cv2.contourArea)\<close> keeps the first contour of maximal area: a
  later one replaces the best only when its area is strictly larger.
\<close>

fun max_by_area :: "contour \<Rightarrow> contour list \<Rightarrow> contour" where
  "max_by_area best [] = best"
| "max_by_area best (c # cs) =
     max_by_area (if contourArea c > contourArea best then c else best) cs"

definition select_blob :: "contour list \<Rightarrow> (contour \<times> real) option" where
  "select_blob contours =
     (case contours of
        [] \<Rightarrow> None
      | c # cs \<Rightarrow>
          (let contour = max_by_area c cs; area = contourArea contour
           in if area > 800 then Some (contour, area) else None))"

subsection \<open>The program's variables\<close>

text \<open>
  The module-level variables that live across frames. \<open>frame_height\<close> and
  \<open>frame_width\<close> do not exist before the first frame; they are written before they are
  read, so their start value never shows. \<open>draws\<close> counts the calls of
  \<^verbatim>\<open>random.randint\<close> made so far: it is the position in the random source.
\<close>

record tracker =
  initialized :: bool
  target :: "point option"
  target_reached_time :: real
  frame_height :: int
  frame_width :: int
  draws :: nat

definition reach_threshold :: int where
  "reach_threshold = 30"

definition target_reached_cooldown :: real where
  "target_reached_cooldown = 0.8"

definition initial_tracker :: tracker where
  "initial_tracker =
     \<lparr>initialized = False, target = None, target_reached_time = 0,
      frame_height = 0, frame_width = 0, draws = 0\<rparr>"

text \<open>
  What one pass of the loop reads from outside: the image of \<^verbatim>\<open>cap.read()\<close>, the
  two readings of \<^verbatim>\<open>time.time()\<close> (the one compared with the cooldown and the one
  stored as the new timestamp), and the result of \<^verbatim>\<open>cv2.waitKey(1)\<close>.
\<close>

record frame_in =
  frame :: image
  now_check :: real
  now_stamp :: real
  key :: int

text \<open>
  \<^verbatim>\<open>cap.read()\<close> returns, beside the image, whether the image is not empty: a read
  that fails delivers no image, and \<^verbatim>\<open>ret\<close> is false exactly then. A frame with
  \<^verbatim>\<open>ret\<close> true and an empty image does not exist.
\<close>

definition ret :: "frame_in \<Rightarrow> bool" where
  "ret f = (\<not> empty_image (frame f))"

text \<open>The variables that are reset on every frame.\<close>

record frame_vars =
  direction :: string
  detected_color :: "string option"
  cx :: "int option"
  cy :: "int option"

definition frame_defaults :: frame_vars where
  "frame_defaults =
     \<lparr>direction = ''No Object Detected'', detected_color = None, cx = None, cy = None\<rparr>"

text \<open>What the frame shows: the values drawn on the image by the display step.\<close>

record display =
  shown_direction :: string
  shown_color :: "string option"
  nav_instruction :: string
  dist :: "int option"
  shown_target :: point
  centroid :: "point option"

subsection \<open>Random targets\<close>

text \<open>
  \<^verbatim>\<open>random.randint(a, b)\<close> returns an integer of \<open>[a, b]\<close> and raises
  \<^verbatim>\<open>ValueError\<close> when the range is empty. The draw number \<open>i\<close> of the random source
  picks the integer.
\<close>

definition randint :: "(nat \<Rightarrow> nat) \<Rightarrow> nat \<Rightarrow> int \<Rightarrow> int \<Rightarrow> error + int" where
  "randint rnd i a b =
     (if a > b then Inl ValueError else Inr (a + int (rnd i mod nat (b - a + 1))))"

definition new_random_target ::
  "(nat \<Rightarrow> nat) \<Rightarrow> nat \<Rightarrow> int \<Rightarrow> int \<Rightarrow> int \<Rightarrow> error + point" where
  "new_random_target rnd i w h margin =
     (case randint rnd i margin (w - margin) of
        Inl e \<Rightarrow> Inl e
      | Inr tx \<Rightarrow>
          (case randint rnd (i + 1) margin (h - margin) of
             Inl e \<Rightarrow> Inl e
           | Inr ty \<Rightarrow> Inr (tx, ty)))"

text \<open>\<^verbatim>\<open>target = new_random_target(frame_width, frame_height)\<close>, with the default margin.\<close>

definition assign_new_target :: "(nat \<Rightarrow> nat) \<Rightarrow> tracker \<Rightarrow> error + tracker" where
  "assign_new_target rnd s =
     (case new_random_target rnd (draws s) (frame_width s) (frame_height s) 50 of
        Inl e \<Rightarrow> Inl e
      | Inr t \<Rightarrow> Inr (s\<lparr>target := Some t, draws := draws s + 2\<rparr>))"

subsection \<open>The colour loop\<close>

definition truthy :: "string option \<Rightarrow> bool" where
  "truthy d = (case d of None \<Rightarrow> False | Some n \<Rightarrow> n \<noteq> [])"

definition direction_of :: "int \<Rightarrow> int \<Rightarrow> string" where
  "direction_of x fw =
     (if real_of_int x < real_of_int fw / 3 then ''Move Left''
      else if real_of_int x > 2 * real_of_int fw / 3 then ''Move Right''
      else ''Move Forward'')"

text \<open>
  The body of \<^verbatim>\<open>if area > 800\<close>: centroid of the bounding rectangle, frame size,
  direction, colour name.
\<close>

definition accept_blob ::
  "image \<Rightarrow> string \<Rightarrow> contour \<Rightarrow> tracker \<Rightarrow> frame_vars \<Rightarrow> tracker \<times> frame_vars" where
  "accept_blob frm color_name contour s v =
     (case boundingRect contour of (x, y, w, h) \<Rightarrow>
        (let cx' = x + w div 2; cy' = y + h div 2;
             fh = fst (shape frm); fw = snd (shape frm)
         in (s\<lparr>frame_height := fh, frame_width := fw\<rparr>,
             v\<lparr>cx := Some cx', cy := Some cy', direction := direction_of cx' fw,
               detected_color := Some color_name\<rparr>)))"

text \<open>
  The part of the loop body that looks at one colour: mask, cleaning, contours, largest
  contour, area test. \<^verbatim>\<open>cv2.GaussianBlur(None, ...)\<close> raises, which is what a
  colour without ranges leads to.
\<close>

definition color_blob ::
  "cvlib \<Rightarrow> image \<Rightarrow> (bound \<times> bound) list \<Rightarrow> error + (contour \<times> real) option" where
  "color_blob cv hsv ranges =
     (case build_mask hsv ranges None of
        None \<Rightarrow> Inl CvError
      | Some msk \<Rightarrow> Inr (select_blob (findContours cv (clean_mask cv msk))))"

text \<open>
  \<^verbatim>\<open>for color_name, ranges in colors.items()\<close>. An accepted blob ends the loop
  (\<^verbatim>\<open>break\<close>); so does a colour name already set, which is the second
  \<^verbatim>\<open>break\<close> of the source.
\<close>

fun detect_colors ::
  "cvlib \<Rightarrow> image \<Rightarrow> image \<Rightarrow> (string \<times> (bound \<times> bound) list) list \<Rightarrow>
   tracker \<Rightarrow> frame_vars \<Rightarrow> error + tracker \<times> frame_vars" where
  "detect_colors cv frm hsv [] s v = Inr (s, v)"
| "detect_colors cv frm hsv ((color_name, ranges) # rest) s v =
     (case color_blob cv hsv ranges of
        Inl e \<Rightarrow> Inl e
      | Inr (Some (contour, area)) \<Rightarrow> Inr (accept_blob frm color_name contour s v)
      | Inr None \<Rightarrow>
          if truthy (detected_color v) then Inr (s, v)
          else detect_colors cv frm hsv rest s v)"

subsection \<open>Distance\<close>

text \<open>
  \<^verbatim>\<open>int(np.hypot(dx, dy))\<close> on integers, computed exactly: the integer square root
  of \<open>dx\<^sup>2 + dy\<^sup>2\<close>.
\<close>

fun isqrt :: "nat \<Rightarrow> nat" where
  "isqrt n =
     (if n < 4 then (if n = 0 then 0 else 1)
      else (let r = 2 * isqrt (n div 4) in if (r + 1) * (r + 1) \<le> n then r + 1 else r))"

declare isqrt.simps [simp del]

definition hypot_trunc :: "int \<Rightarrow> int \<Rightarrow> int" where
  "hypot_trunc dx dy = int (isqrt (nat (dx * dx + dy * dy)))"

subsection \<open>Navigation and the cooldown gate\<close>

definition horiz_part :: "int \<Rightarrow> string" where
  "horiz_part dx =
     (if \<bar>dx\<bar> > reach_threshold then (if dx > 0 then ''Move Right'' else ''Move Left'')
      else [])"

definition vert_part :: "int \<Rightarrow> string" where
  "vert_part dy =
     (if \<bar>dy\<bar> > reach_threshold then (if dy > 0 then ''Move Down'' else ''Move Up'')
      else [])"

text \<open>
  The branch \<^verbatim>\<open>nav_instruction = "Target Reached"\<close> with its gate: the timestamp is
  assigned first, then the new target is generated.
\<close>

definition reach_gate :: "(nat \<Rightarrow> nat) \<Rightarrow> frame_in \<Rightarrow> tracker \<Rightarrow> error + tracker" where
  "reach_gate rnd f s =
     (if now_check f - target_reached_time s > target_reached_cooldown
      then assign_new_target rnd (s\<lparr>target_reached_time := now_stamp f\<rparr>)
      else Inr s)"

text \<open>
  The block \<^verbatim>\<open>if cx is not None and cy is not None: ... else: ...\<close>. The target
  \<open>(tx, ty)\<close> was read before the block; the result is the tracker, the instruction and
  the distance when one was computed.
\<close>

definition navigate ::
  "(nat \<Rightarrow> nat) \<Rightarrow> frame_in \<Rightarrow> tracker \<Rightarrow> frame_vars \<Rightarrow> point \<Rightarrow>
   error + tracker \<times> string \<times> int option" where
  "navigate rnd f s v t =
     (case (cx v, cy v) of
        (Some cx', Some cy') \<Rightarrow>
          (let dx = fst t - cx'; dy = snd t - cy';
               d = hypot_trunc dx dy;
               horiz = horiz_part dx; vert = vert_part dy
           in if horiz \<noteq> [] \<and> vert \<noteq> [] then Inr (s, horiz @ '' & '' @ vert, Some d)
              else if horiz \<noteq> [] then Inr (s, horiz, Some d)
              else if vert \<noteq> [] then Inr (s, vert, Some d)
              else (case reach_gate rnd f s of
                      Inl e \<Rightarrow> Inl e
                    | Inr s' \<Rightarrow> Inr (s', ''Target Reached'', Some d)))
      | _ \<Rightarrow> Inr (s, ''No object to navigate'', None))"

subsection \<open>One pass of the loop\<close>

text \<open>
  \<^verbatim>\<open>if not initialized\<close>: the frame is mirrored, its size is stored and the first
  target is generated. When the mirrored frame is \<^verbatim>\<open>None\<close>, reading its
  \<^verbatim>\<open>shape\<close> raises.
\<close>

definition init_target :: "(nat \<Rightarrow> nat) \<Rightarrow> tracker \<Rightarrow> image \<Rightarrow> error + tracker \<times> image" where
  "init_target rnd s frm =
     (if \<not> initialized s
      then (case flip frm of
              None \<Rightarrow> Inl AttributeError
            | Some frm1 \<Rightarrow>
                (let s1 = s\<lparr>frame_height := fst (shape frm1),
                            frame_width := snd (shape frm1)\<rparr>
                 in case assign_new_target rnd s1 of
                      Inl e \<Rightarrow> Inl e
                    | Inr s2 \<Rightarrow> Inr (s2\<lparr>initialized := True\<rparr>, frm1)))
      else Inr (s, frm))"

text \<open>\<^verbatim>\<open>if target is None: target = new_random_target(frame_width, frame_height)\<close>.\<close>

definition ensure_target :: "(nat \<Rightarrow> nat) \<Rightarrow> tracker \<Rightarrow> error + tracker \<times> point" where
  "ensure_target rnd s =
     (case target s of
        Some t \<Rightarrow> Inr (s, t)
      | None \<Rightarrow>
          (case new_random_target rnd (draws s) (frame_width s) (frame_height s) 50 of
             Inl e \<Rightarrow> Inl e
           | Inr t \<Rightarrow> Inr (s\<lparr>target := Some t, draws := draws s + 2\<rparr>, t)))"

text \<open>
  The body of the loop for a frame that was read (\<^verbatim>\<open>ret\<close> true), up to the display.
  \<open>Inl\<close> is an exception that nothing catches. \<^verbatim>\<open>cv2.cvtColor(None, ...)\<close>
  raises \<^verbatim>\<open>cv2.error\<close>.
\<close>

definition frame_step ::
  "cvlib \<Rightarrow> (nat \<Rightarrow> nat) \<Rightarrow> tracker \<Rightarrow> frame_in \<Rightarrow> error + tracker \<times> display" where
  "frame_step cv rnd s f =
     (case init_target rnd s (frame f) of
        Inl e \<Rightarrow> Inl e
      | Inr (s1, frm0) \<Rightarrow>
          (case flip frm0 of
             None \<Rightarrow> Inl CvError
           | Some frm \<Rightarrow>
               (case cvtColor cv frm of
                  Inl e \<Rightarrow> Inl e
                | Inr hsv \<Rightarrow>
                    (case detect_colors cv frm hsv colors s1 frame_defaults of
                       Inl e \<Rightarrow> Inl e
                     | Inr (s2, v) \<Rightarrow>
                         (case ensure_target rnd s2 of
                            Inl e \<Rightarrow> Inl e
                          | Inr (s3, t) \<Rightarrow>
                              (case navigate rnd f s3 v t of
                                 Inl e \<Rightarrow> Inl e
                               | Inr (s4, nav, d) \<Rightarrow>
                                   Inr (s4,
                                        \<lparr>shown_direction = direction v,
                                         shown_color = detected_color v,
                                         nav_instruction = nav, dist = d, shown_target = t,
                                         centroid =
                                           (case (cx v, cy v) of
                                              (Some a, Some b) \<Rightarrow> Some (a, b)
                                            | _ \<Rightarrow> None)\<rparr>)))))))"

subsection \<open>The loop\<close>

text \<open>
  The loop over the frames the camera delivers. It ends when a read fails
  (\<^verbatim>\<open>if not ret: break\<close>, after printing that the camera is not accessible), when the key
  \<^verbatim>\<open>q\<close> (code 113) is pressed after a display, or with an exception. The result
  holds the tracker, what was displayed, and whether the loop is still running after the
  last of the given frames.
\<close>

fun run ::
  "cvlib \<Rightarrow> (nat \<Rightarrow> nat) \<Rightarrow> tracker \<Rightarrow> frame_in list \<Rightarrow>
   error + tracker \<times> display list \<times> bool" where
  "run cv rnd s [] = Inr (s, [], True)"
| "run cv rnd s (f # fs) =
     (if \<not> ret f then Inr (s, [], False)
      else (case frame_step cv rnd s f of
              Inl e \<Rightarrow> Inl e
            | Inr (s', d) \<Rightarrow>
                if key f AND 255 = 113 then Inr (s', [d], False)
                else (case run cv rnd s' fs of
                        Inl e \<Rightarrow> Inl e
                      | Inr (s'', ds, running) \<Rightarrow> Inr (s'', d # ds, running))))"

subsection \<open>Notions the properties are stated with\<close>

text \<open>
  The inset rectangle \<open>[50, w - 50] \<times> [50, h - 50]\<close> of a frame of width \<open>w\<close> and
  height \<open>h\<close>.
\<close>

definition in_inset :: "int \<Rightarrow> int \<Rightarrow> point \<Rightarrow> bool" where
  "in_inset w h t = (50 \<le> fst t \<and> fst t \<le> w - 50 \<and> 50 \<le> snd t \<and> snd t \<le> h - 50)"

text \<open>
  An initialised tracker for frames of width \<open>w\<close> and height \<open>h\<close>: it knows the
  frame size and holds a target of the inset rectangle.
\<close>

definition tracker_ok :: "int \<Rightarrow> int \<Rightarrow> tracker \<Rightarrow> bool" where
  "tracker_ok w h s =
     (initialized s \<and> frame_width s = w \<and> frame_height s = h \<and>
      (case target s of None \<Rightarrow> False | Some t \<Rightarrow> in_inset w h t))"

text \<open>The mask of the size of an image in which no pixel is set.\<close>

definition zero_mask :: "image \<Rightarrow> mask" where
  "zero_mask img = map (map (\<lambda>p. 0)) img"

text \<open>
  The region a contour encloses, by the even-odd rule: a point is inside when the
  horizontal ray from it to the right crosses the closed polygon an odd number of times.
  \<open>crossings p a c\<close> counts the crossed edges of the path that starts at \<open>a\<close> and
  follows \<open>c\<close>.
\<close>

fun crossings :: "point \<Rightarrow> point \<Rightarrow> contour \<Rightarrow> nat" where
  "crossings p a [] = 0"
| "crossings p a (b # c) =
     (if (snd a > snd p) \<noteq> (snd b > snd p) \<and>
         real_of_int (fst p) <
           real_of_int (fst a) +
           real_of_int ((snd p - snd a) * (fst b - fst a)) / real_of_int (snd b - snd a)
      then 1 else 0) + crossings p b c"

definition inside_contour :: "contour \<Rightarrow> point \<Rightarrow> bool" where
  "inside_contour c p = (c \<noteq> [] \<and> odd (crossings p (last c) c))"

text \<open>
  The number of pixels of the region a contour bounds: the pixels of its bounding
  rectangle that lie on the contour or inside it. A contour runs through the centres of
  the border pixels of its region, so the border pixels count.
\<close>

definition on_segment :: "point \<Rightarrow> point \<Rightarrow> point \<Rightarrow> bool" where
  "on_segment p a b =
     ((fst b - fst a) * (snd p - snd a) = (snd b - snd a) * (fst p - fst a) \<and>
      min (fst a) (fst b) \<le> fst p \<and> fst p \<le> max (fst a) (fst b) \<and>
      min (snd a) (snd b) \<le> snd p \<and> snd p \<le> max (snd a) (snd b))"

fun on_contour :: "point \<Rightarrow> point \<Rightarrow> contour \<Rightarrow> bool" where
  "on_contour p a [] = False"
| "on_contour p a (b # c) = (on_segment p a b \<or> on_contour p b c)"

definition covered :: "contour \<Rightarrow> point \<Rightarrow> bool" where
  "covered c p = (c \<noteq> [] \<and> (on_contour p (last c) c \<or> inside_contour c p))"

definition pixel_count :: "contour \<Rightarrow> nat" where
  "pixel_count c =
     (case boundingRect c of (x, y, w, h) \<Rightarrow>
        length (filter (covered c) (List.product [x..x + w - 1] [y..y + h - 1])))"

subsection \<open>Sample inputs\<close>

text \<open>
  One implementation of the library parameters, and a few frames and trackers, on which
  the model is run. The sample library takes the frame as HSV already, leaves a mask as
  it is when cleaning it, and finds one square contour of area 10000 around the point
  (320, 240) in a mask that has a set pixel.
\<close>

definition sample_cv :: cvlib where
  "sample_cv =
     \<lparr>bgr2hsv = (\<lambda>p. p), GaussianBlur = (\<lambda>m. m), erode = (\<lambda>m. m), dilate = (\<lambda>m. m),
      findContours =
        (\<lambda>m. if list_all (list_all (\<lambda>p. p = 0)) m then []
              else [[(270, 190), (270, 290), (370, 290), (370, 190)]])\<rparr>"

definition sample_rnd :: "nat \<Rightarrow> nat" where
  "sample_rnd i = 7 * i + 3"

definition green_pixel :: pixel where
  "green_pixel = (60, 200, 200)"

definition red_pixel :: pixel where
  "red_pixel = (5, 200, 200)"

definition grey_pixel :: pixel where
  "grey_pixel = (0, 0, 128)"

definition uniform_frame :: "pixel \<Rightarrow> image" where
  "uniform_frame p = replicate 480 (replicate 640 p)"

definition camera :: "image \<Rightarrow> real \<Rightarrow> frame_in" where
  "camera img t = \<lparr>frame = img, now_check = t, now_stamp = t, key = - 1\<rparr>"

definition tracking :: "point \<Rightarrow> real \<Rightarrow> tracker" where
  "tracking t ts =
     \<lparr>initialized = True, target = Some t, target_reached_time = ts,
      frame_height = 480, frame_width = 640, draws = 2\<rparr>"

definition at_centroid :: "int \<Rightarrow> int \<Rightarrow> frame_vars" where
  "at_centroid x y =
     \<lparr>direction = ''Move Forward'', detected_color = Some ''Green'',
      cx = Some x, cy = Some y\<rparr>"

text \<open>
  A strip of height 1 and width \<open>n\<close>, whose area is \<open>n\<close>; an L-shaped contour with arms
  of width 10 and length 100; a random source whose first two draws put the target at
  (320, 240); a frame whose left half is red and whose right half is green.
\<close>

definition strip :: "int \<Rightarrow> contour" where
  "strip n = [(0, 0), (0, 1), (n, 1), (n, 0)]"

definition ell :: contour where
  "ell = [(0, 0), (0, 100), (10, 100), (10, 10), (100, 10), (100, 0)]"

definition centre_rnd :: "nat \<Rightarrow> nat" where
  "centre_rnd i = (if i = 0 then 270 else 190)"

definition red_green_frame :: image where
  "red_green_frame = replicate 480 (replicate 320 red_pixel @ replicate 320 green_pixel)"

section \<open>Properties\<close>

subsection \<open>The distance is the truncated Euclidean distance\<close>

lemma isqrt_bounds: "isqrt n * isqrt n \<le> n \<and> n < (isqrt n + 1) * (isqrt n + 1)"
proof (induction n rule: isqrt.induct)
  case (1 n)
  show ?case
  proof (cases "n < 4")
    case True
    then have "isqrt n = (if n = 0 then 0 else 1)"
      by (subst isqrt.simps) simp
    with True show ?thesis by auto
  next
    case False
    define q where "q = isqrt (n div 4)"
    from False 1 have ih: "q * q \<le> n div 4" "n div 4 < (q + 1) * (q + 1)"
      by (simp_all add: q_def)
    have lo: "(2 * q) * (2 * q) \<le> n"
    proof -
      have "4 * (q * q) \<le> 4 * (n div 4)" using ih(1) by simp
      also have "\<dots> \<le> n" by simp
      finally show ?thesis by (simp add: algebra_simps)
    qed
    have hi: "n < (2 * q + 2) * (2 * q + 2)"
    proof -
      have "n div 4 + 1 \<le> (q + 1) * (q + 1)" using ih(2) by simp
      then have "4 * (n div 4 + 1) \<le> 4 * ((q + 1) * (q + 1))" by simp
      moreover have "n < 4 * (n div 4 + 1)" by presburger
      ultimately show ?thesis by (simp add: algebra_simps)
    qed
    have eq: "isqrt n = (if (2 * q + 1) * (2 * q + 1) \<le> n then 2 * q + 1 else 2 * q)"
      using False by (subst isqrt.simps) (simp add: q_def Let_def)
    show ?thesis
    proof (cases "(2 * q + 1) * (2 * q + 1) \<le> n")
      case True
      with eq hi show ?thesis by (simp add: algebra_simps)
    next
      case False
      with eq lo show ?thesis by (simp add: algebra_simps)
    qed
  qed
qed

lemma floor_sqrt_isqrt: "\<lfloor>sqrt (real n)\<rfloor> = int (isqrt n)"
proof (rule floor_unique)
  have "real (isqrt n) * real (isqrt n) \<le> real n"
    using isqrt_bounds [of n] by (metis of_nat_le_iff of_nat_mult)
  then have "(real (isqrt n))\<^sup>2 \<le> real n" by (simp add: power2_eq_square)
  then show "of_int (int (isqrt n)) \<le> sqrt (real n)"
    by (simp add: real_le_rsqrt)
next
  have "n < (isqrt n + 1) * (isqrt n + 1)"
    using isqrt_bounds [of n] by simp
  then have "real n < real ((isqrt n + 1) * (isqrt n + 1))"
    by (simp only: of_nat_less_iff)
  also have "\<dots> = (real (isqrt n) + 1)\<^sup>2"
    by (simp only: of_nat_mult of_nat_add of_nat_1 power2_eq_square)
  finally have "real n < (real (isqrt n) + 1)\<^sup>2" .
  then have "sqrt (real n) < real (isqrt n) + 1"
    by (intro real_less_lsqrt) simp_all
  then show "sqrt (real n) < of_int (int (isqrt n)) + 1" by simp
qed

lemma hypot_trunc_floor:
  "hypot_trunc dx dy = \<lfloor>sqrt (real_of_int (dx\<^sup>2 + dy\<^sup>2))\<rfloor>"
proof -
  have nn: "0 \<le> dx * dx + dy * dy" by simp
  have "real (nat (dx * dx + dy * dy)) = real_of_int (dx\<^sup>2 + dy\<^sup>2)"
    using nn by (simp add: power2_eq_square)
  then show ?thesis
    unfolding hypot_trunc_def using floor_sqrt_isqrt [of "nat (dx * dx + dy * dy)"] by simp
qed

subsection \<open>Running the model on the sample inputs\<close>

lemmas model_defs =
  frame_step_def init_target_def flip_def mirror_def ret_def cvtColor_def empty_image_def
  colors_def color_blob_def inRange_def in_bounds_def bitwise_or_def clean_mask_def
  select_blob_def contourArea_def boundingRect_def accept_blob_def direction_of_def
  ensure_target_def navigate_def hypot_trunc_def isqrt.simps horiz_part_def vert_part_def
  reach_threshold_def reach_gate_def target_reached_cooldown_def assign_new_target_def
  new_random_target_def randint_def frame_defaults_def truthy_def Let_def

lemmas sample_defs =
  sample_cv_def sample_rnd_def green_pixel_def red_pixel_def grey_pixel_def
  uniform_frame_def camera_def tracking_def at_centroid_def initial_tracker_def

lemma shape_replicate:
  "shape (replicate n r) = (int n, if n = 0 then 0 else int (length r))"
  unfolding shape_def by (cases n) simp_all

lemma list_all_replicate:
  "list_all P (replicate n x) = (n = 0 \<or> P x)"
  by (induction n) auto

lemma shape_Nil: "shape [] = (0, 0)"
  by (simp add: shape_def)

lemmas run_simps = model_defs sample_defs shape_replicate shape_Nil list_all_replicate

lemma sample_step_gate_open:
  "frame_step sample_cv sample_rnd (tracking (320, 240) 1000)
     (camera (uniform_frame green_pixel) (10009 / 10)) =
   Inr (\<lparr>initialized = True, target = Some (67, 74), target_reached_time = 10009 / 10,
          frame_height = 480, frame_width = 640, draws = 4\<rparr>,
        \<lparr>shown_direction = ''Move Forward'', shown_color = Some ''Green'',
          nav_instruction = ''Target Reached'', dist = Some 0,
          shown_target = (320, 240), centroid = Some (320, 240)\<rparr>)"
  by (simp add: run_simps)

lemma sample_step_gate_closed:
  "frame_step sample_cv sample_rnd (tracking (320, 240) 1000)
     (camera (uniform_frame green_pixel) (10003 / 10)) =
   Inr (tracking (320, 240) 1000,
        \<lparr>shown_direction = ''Move Forward'', shown_color = Some ''Green'',
          nav_instruction = ''Target Reached'', dist = Some 0,
          shown_target = (320, 240), centroid = Some (320, 240)\<rparr>)"
  by (simp add: run_simps)

subsection \<open>What a successful pass of the loop is made of\<close>

lemma frame_step_InrD:
  assumes "frame_step cv rnd s f = Inr (s', out)"
  shows "\<exists>s1 frm0 hsv s2 v s3 t nav d.
           init_target rnd s (frame f) = Inr (s1, frm0) \<and>
           \<not> empty_image frm0 \<and>
           cvtColor cv (mirror frm0) = Inr hsv \<and>
           detect_colors cv (mirror frm0) hsv colors s1 frame_defaults = Inr (s2, v) \<and>
           ensure_target rnd s2 = Inr (s3, t) \<and>
           navigate rnd f s3 v t = Inr (s', nav, d) \<and>
           out = \<lparr>shown_direction = direction v, shown_color = detected_color v,
                  nav_instruction = nav, dist = d, shown_target = t,
                  centroid = (case (cx v, cy v) of (Some a, Some b) \<Rightarrow> Some (a, b) | _ \<Rightarrow> None)\<rparr>"
proof -
  from assms obtain s1 frm0 where ini: "init_target rnd s (frame f) = Inr (s1, frm0)"
    unfolding frame_step_def by (auto split: sum.splits)
  from assms ini obtain frm where fl: "flip frm0 = Some frm"
    unfolding frame_step_def by (cases "flip frm0") auto
  from fl have ne: "\<not> empty_image frm0" and frm: "frm = mirror frm0"
    unfolding flip_def by (auto split: if_splits)
  from fl frm have fl': "flip frm0 = Some (mirror frm0)" by simp
  from assms ne show ?thesis
    by (auto simp: frame_step_def ini fl' split: sum.splits prod.splits)
qed

lemma assign_new_target_Inr:
  assumes "assign_new_target rnd s = Inr s'"
  shows "\<exists>t. new_random_target rnd (draws s) (frame_width s) (frame_height s) 50 = Inr t \<and>
             s' = s\<lparr>target := Some t, draws := draws s + 2\<rparr>"
  using assms unfolding assign_new_target_def by (auto split: sum.splits)

lemma init_target_Inr:
  assumes "init_target rnd s frm = Inr (s1, frm0)"
  shows "initialized s1 \<and> target_reached_time s1 = target_reached_time s \<and>
         (initialized s \<longrightarrow> s1 = s \<and> frm0 = frm) \<and>
         (\<not> initialized s \<longrightarrow>
            frm0 = mirror frm \<and> \<not> empty_image frm \<and> draws s1 = draws s + 2 \<and>
            frame_height s1 = fst (shape (mirror frm)) \<and>
            frame_width s1 = snd (shape (mirror frm)) \<and>
            (\<exists>t. new_random_target rnd (draws s) (snd (shape (mirror frm)))
                   (fst (shape (mirror frm))) 50 = Inr t \<and> target s1 = Some t))"
  using assms unfolding init_target_def flip_def Let_def
  by (auto split: if_splits sum.splits option.splits dest!: assign_new_target_Inr)

lemma accept_blob_eq:
  assumes "boundingRect c = (x, y, w, h)"
  shows "accept_blob frm n c s v =
           (s\<lparr>frame_height := fst (shape frm), frame_width := snd (shape frm)\<rparr>,
            v\<lparr>cx := Some (x + w div 2), cy := Some (y + h div 2),
              direction := direction_of (x + w div 2) (snd (shape frm)),
              detected_color := Some n\<rparr>)"
  using assms unfolding accept_blob_def Let_def by simp

lemma detect_colors_Inr:
  assumes "detect_colors cv frm hsv cs s v = Inr (s2, v2)"
  shows "(s2 = s \<and> v2 = v) \<or>
         (s2 = s\<lparr>frame_height := fst (shape frm), frame_width := snd (shape frm)\<rparr> \<and>
          cx v2 \<noteq> None \<and> cy v2 \<noteq> None)"
  using assms
proof (induction cs)
  case Nil
  then show ?case by simp
next
  case (Cons a cs)
  obtain n rs where a: "a = (n, rs)" by (cases a)
  show ?case
  proof (cases "color_blob cv hsv rs")
    case (Inl e)
    with Cons.prems a show ?thesis by simp
  next
    case (Inr b)
    show ?thesis
    proof (cases b)
      case None
      with Inr Cons.prems a Cons.IH show ?thesis
        by (auto split: if_splits)
    next
      case (Some ca)
      obtain c ar where ca: "ca = (c, ar)" by (cases ca)
      obtain x y w h where br: "boundingRect c = (x, y, w, h)"
        by (cases "boundingRect c") auto
      from Cons.prems a Inr Some ca accept_blob_eq [OF br, of frm n s v]
      show ?thesis by auto
    qed
  qed
qed

lemma ensure_target_Inr:
  assumes "ensure_target rnd s = Inr (s3, t)"
  shows "target s3 = Some t \<and> target_reached_time s3 = target_reached_time s \<and>
         initialized s3 = initialized s \<and>
         frame_width s3 = frame_width s \<and> frame_height s3 = frame_height s \<and>
         (target s \<noteq> None \<longrightarrow> s3 = s) \<and>
         (target s = None \<longrightarrow> draws s3 = draws s + 2)"
  using assms unfolding ensure_target_def
  by (auto split: option.splits sum.splits)

lemma navigate_reached:
  assumes "navigate rnd f s v t = Inr (s', ''Target Reached'', d)"
  shows "reach_gate rnd f s = Inr s' \<and> cx v \<noteq> None \<and> cy v \<noteq> None"
  using assms unfolding navigate_def Let_def horiz_part_def vert_part_def
  by (auto split: option.splits sum.splits if_splits)

lemma reach_gate_open:
  assumes "reach_gate rnd f s = Inr s'"
    and "now_check f - target_reached_time s > target_reached_cooldown"
  shows "\<exists>t'. new_random_target rnd (draws s) (frame_width s) (frame_height s) 50 = Inr t' \<and>
              s' = s\<lparr>target_reached_time := now_stamp f, target := Some t',
                      draws := draws s + 2\<rparr>"
  using assms unfolding reach_gate_def
  by (auto dest!: assign_new_target_Inr)

lemma reach_gate_closed:
  assumes "\<not> now_check f - target_reached_time s > target_reached_cooldown"
  shows "reach_gate rnd f s = Inr s"
  using assms unfolding reach_gate_def by simp

subsection \<open>The navigation instruction\<close>

text \<open>
  C2. With \<open>dx = tx - cx\<close> and \<open>dy = ty - cy\<close>, the instruction has a horizontal part
  exactly when \<open>|dx| > 30\<close> (right for positive \<open>dx\<close>, left for negative) and a vertical
  part exactly when \<open>|dy| > 30\<close> (down for positive \<open>dy\<close>, up for negative). Both parts
  are joined by \<open>&\<close>, one part stands alone, and with no part the instruction is
  \<open>Target Reached\<close>, after which the cooldown gate runs. The distance is the floor of the
  Euclidean distance. The nine cases cover every \<open>dx\<close> and \<open>dy\<close>.
\<close>

theorem navigate_instruction_and_distance:
  fixes tx ty x y :: int
  defines "dx \<equiv> tx - x" and "dy \<equiv> ty - y"
  defines "D \<equiv> \<lfloor>sqrt (real_of_int (dx\<^sup>2 + dy\<^sup>2))\<rfloor>"
  assumes "cx v = Some x" and "cy v = Some y"
  shows "(30 < dx \<and> 30 < dy \<longrightarrow>
            navigate rnd f s v (tx, ty) = Inr (s, ''Move Right & Move Down'', Some D)) \<and>
         (30 < dx \<and> dy < - 30 \<longrightarrow>
            navigate rnd f s v (tx, ty) = Inr (s, ''Move Right & Move Up'', Some D)) \<and>
         (dx < - 30 \<and> 30 < dy \<longrightarrow>
            navigate rnd f s v (tx, ty) = Inr (s, ''Move Left & Move Down'', Some D)) \<and>
         (dx < - 30 \<and> dy < - 30 \<longrightarrow>
            navigate rnd f s v (tx, ty) = Inr (s, ''Move Left & Move Up'', Some D)) \<and>
         (30 < dx \<and> \<bar>dy\<bar> \<le> 30 \<longrightarrow>
            navigate rnd f s v (tx, ty) = Inr (s, ''Move Right'', Some D)) \<and>
         (dx < - 30 \<and> \<bar>dy\<bar> \<le> 30 \<longrightarrow>
            navigate rnd f s v (tx, ty) = Inr (s, ''Move Left'', Some D)) \<and>
         (\<bar>dx\<bar> \<le> 30 \<and> 30 < dy \<longrightarrow>
            navigate rnd f s v (tx, ty) = Inr (s, ''Move Down'', Some D)) \<and>
         (\<bar>dx\<bar> \<le> 30 \<and> dy < - 30 \<longrightarrow>
            navigate rnd f s v (tx, ty) = Inr (s, ''Move Up'', Some D)) \<and>
         (\<bar>dx\<bar> \<le> 30 \<and> \<bar>dy\<bar> \<le> 30 \<longrightarrow>
            navigate rnd f s v (tx, ty) =
              (case reach_gate rnd f s of
                 Inl e \<Rightarrow> Inl e
               | Inr s' \<Rightarrow> Inr (s', ''Target Reached'', Some D)))"
proof -
  have d: "hypot_trunc dx dy = D"
    unfolding D_def by (rule hypot_trunc_floor)
  show ?thesis
    unfolding d [symmetric] dx_def dy_def using assms(4,5)
    by (simp add: navigate_def horiz_part_def vert_part_def reach_threshold_def Let_def)
qed

theorem navigate_instruction_and_distance_witness:
  "navigate sample_rnd (camera [] 1000) (tracking (640, 140) 1000) (at_centroid 600 100)
     (640, 140) = Inr (tracking (640, 140) 1000, ''Move Right & Move Down'', Some 56) \<and>
   navigate sample_rnd (camera [] 1000) (tracking (640, 60) 1000) (at_centroid 600 100)
     (640, 60) = Inr (tracking (640, 60) 1000, ''Move Right & Move Up'', Some 56) \<and>
   navigate sample_rnd (camera [] 1000) (tracking (100, 500) 1000) (at_centroid 600 100)
     (100, 500) = Inr (tracking (100, 500) 1000, ''Move Left & Move Down'', Some 640) \<and>
   navigate sample_rnd (camera [] 1000) (tracking (560, 60) 1000) (at_centroid 600 100)
     (560, 60) = Inr (tracking (560, 60) 1000, ''Move Left & Move Up'', Some 56) \<and>
   navigate sample_rnd (camera [] 1000) (tracking (631, 130) 1000) (at_centroid 600 100)
     (631, 130) = Inr (tracking (631, 130) 1000, ''Move Right'', Some 43) \<and>
   navigate sample_rnd (camera [] 1000) (tracking (569, 70) 1000) (at_centroid 600 100)
     (569, 70) = Inr (tracking (569, 70) 1000, ''Move Left'', Some 43) \<and>
   navigate sample_rnd (camera [] 1000) (tracking (630, 131) 1000) (at_centroid 600 100)
     (630, 131) = Inr (tracking (630, 131) 1000, ''Move Down'', Some 43) \<and>
   navigate sample_rnd (camera [] 1000) (tracking (570, 69) 1000) (at_centroid 600 100)
     (570, 69) = Inr (tracking (570, 69) 1000, ''Move Up'', Some 43) \<and>
   navigate sample_rnd (camera [] (10003 / 10)) (tracking (630, 70) 1000) (at_centroid 600 100)
     (630, 70) = Inr (tracking (630, 70) 1000, ''Target Reached'', Some 42)"
proof -
  have c: "cx (at_centroid 600 100) = Some 600" "cy (at_centroid 600 100) = Some 100"
    by (simp_all add: at_centroid_def)
  note th = navigate_instruction_and_distance [OF c, folded hypot_trunc_floor]
  show ?thesis
    using th [of 640 140 sample_rnd "camera [] 1000" "tracking (640, 140) 1000"]
      th [of 640 60 sample_rnd "camera [] 1000" "tracking (640, 60) 1000"]
      th [of 100 500 sample_rnd "camera [] 1000" "tracking (100, 500) 1000"]
      th [of 560 60 sample_rnd "camera [] 1000" "tracking (560, 60) 1000"]
      th [of 631 130 sample_rnd "camera [] 1000" "tracking (631, 130) 1000"]
      th [of 569 70 sample_rnd "camera [] 1000" "tracking (569, 70) 1000"]
      th [of 630 131 sample_rnd "camera [] 1000" "tracking (630, 131) 1000"]
      th [of 570 69 sample_rnd "camera [] 1000" "tracking (570, 69) 1000"]
      th [of 630 70 sample_rnd "camera [] (10003 / 10)" "tracking (630, 70) 1000"]
    by (simp add: hypot_trunc_def isqrt.simps reach_gate_def target_reached_cooldown_def
        camera_def tracking_def)
qed

subsection \<open>The cooldown gate\<close>

text \<open>
  A pass that ends with the instruction \<open>Target Reached\<close> went through the gate. The
  tracker \<open>s3\<close> that entered the gate has the timestamp the pass started with, holds the
  target that the frame shows, and stands at position \<open>i\<close> of the random source: the
  first frame of a run has already drawn its initial target.
\<close>

lemma frame_step_reached:
  assumes step: "frame_step cv rnd s f = Inr (s', out)"
    and reached: "nav_instruction out = ''Target Reached''"
  defines "i \<equiv> (if initialized s \<and> target s \<noteq> None then draws s else draws s + 2)"
  shows "\<exists>s3. reach_gate rnd f s3 = Inr s' \<and>
              target_reached_time s3 = target_reached_time s \<and> draws s3 = i \<and>
              target s3 = Some (shown_target out)"
proof -
  from frame_step_InrD [OF step] obtain s1 frm0 hsv s2 v s3 t nav d where
    ini: "init_target rnd s (frame f) = Inr (s1, frm0)" and
    det: "detect_colors cv (mirror frm0) hsv colors s1 frame_defaults = Inr (s2, v)" and
    ens: "ensure_target rnd s2 = Inr (s3, t)" and
    nav: "navigate rnd f s3 v t = Inr (s', nav, d)" and
    out: "out = \<lparr>shown_direction = direction v, shown_color = detected_color v,
                  nav_instruction = nav, dist = d, shown_target = t,
                  centroid = (case (cx v, cy v) of (Some a, Some b) \<Rightarrow> Some (a, b) | _ \<Rightarrow> None)\<rparr>"
    by blast
  from out reached have nav_eq: "nav = ''Target Reached''" by simp
  from navigate_reached [OF nav [unfolded nav_eq]]
  have gate: "reach_gate rnd f s3 = Inr s'" by simp
  note I = init_target_Inr [OF ini]
  note E = ensure_target_Inr [OF ens]
  from detect_colors_Inr [OF det]
  have D: "target s2 = target s1 \<and> target_reached_time s2 = target_reached_time s1 \<and>
           draws s2 = draws s1 \<and> initialized s2 = initialized s1"
    by auto
  have trt3: "target_reached_time s3 = target_reached_time s"
    using I D E by simp
  have draws3: "draws s3 = i"
  proof (cases "initialized s")
    case True
    with I have "s1 = s" by simp
    with D E True show ?thesis by (cases "target s") (auto simp: i_def)
  next
    case False
    with I have "draws s1 = draws s + 2" "target s1 \<noteq> None" by auto
    with D E False show ?thesis by (auto simp: i_def)
  qed
  have tgt3: "target s3 = Some (shown_target out)" using E out by simp
  from gate trt3 draws3 tgt3 show ?thesis by blast
qed

text \<open>
  C1. On a frame whose instruction is \<open>Target Reached\<close>, the target is replaced by a
  freshly drawn one exactly when the clock reading minus the stored timestamp exceeds
  the cooldown of 0.8 seconds. Then the timestamp becomes the clock reading taken for
  it, and the new target comes from the next two draws of the random source. Otherwise
  the target (the one shown on the frame), the timestamp and the random source stay as
  they were. \<open>i\<close> is the position in the random source when the navigation starts.
\<close>

theorem cooldown_gate:
  assumes step: "frame_step cv rnd s f = Inr (s', out)"
    and reached: "nav_instruction out = ''Target Reached''"
  defines "i \<equiv> (if initialized s \<and> target s \<noteq> None then draws s else draws s + 2)"
  shows "(now_check f - target_reached_time s > target_reached_cooldown \<longrightarrow>
            target_reached_time s' = now_stamp f \<and> draws s' = i + 2 \<and>
            (\<exists>t'. new_random_target rnd i (frame_width s') (frame_height s') 50 = Inr t' \<and>
                  target s' = Some t')) \<and>
         (\<not> now_check f - target_reached_time s > target_reached_cooldown \<longrightarrow>
            target_reached_time s' = target_reached_time s \<and> draws s' = i \<and>
            target s' = Some (shown_target out))"
proof -
  from frame_step_reached [OF step reached] obtain s3 where
    gate: "reach_gate rnd f s3 = Inr s'" and
    trt3: "target_reached_time s3 = target_reached_time s" and
    draws3: "draws s3 = i" and
    tgt3: "target s3 = Some (shown_target out)"
    unfolding i_def by blast
  show ?thesis
  proof (cases "now_check f - target_reached_time s > target_reached_cooldown")
    case True
    with trt3 have "now_check f - target_reached_time s3 > target_reached_cooldown" by simp
    from reach_gate_open [OF gate this] draws3 True show ?thesis by auto
  next
    case False
    with trt3 have "\<not> now_check f - target_reached_time s3 > target_reached_cooldown" by simp
    from reach_gate_closed [OF this, of rnd] gate have "s' = s3" by simp
    with False trt3 draws3 tgt3 show ?thesis by simp
  qed
qed

theorem cooldown_gate_witness:
  "frame_step sample_cv sample_rnd (tracking (320, 240) 1000)
     (camera (uniform_frame green_pixel) (10009 / 10)) =
   Inr (\<lparr>initialized = True, target = Some (67, 74), target_reached_time = 10009 / 10,
          frame_height = 480, frame_width = 640, draws = 4\<rparr>,
        \<lparr>shown_direction = ''Move Forward'', shown_color = Some ''Green'',
          nav_instruction = ''Target Reached'', dist = Some 0,
          shown_target = (320, 240), centroid = Some (320, 240)\<rparr>) \<and>
   new_random_target sample_rnd 2 640 480 50 = Inr (67, 74) \<and>
   frame_step sample_cv sample_rnd (tracking (320, 240) 1000)
     (camera (uniform_frame green_pixel) (10003 / 10)) =
   Inr (tracking (320, 240) 1000,
        \<lparr>shown_direction = ''Move Forward'', shown_color = Some ''Green'',
          nav_instruction = ''Target Reached'', dist = Some 0,
          shown_target = (320, 240), centroid = Some (320, 240)\<rparr>)"
  using cooldown_gate [OF sample_step_gate_open] cooldown_gate [OF sample_step_gate_closed]
    sample_step_gate_open sample_step_gate_closed
  by (simp add: tracking_def camera_def target_reached_cooldown_def)

subsection \<open>The area threshold\<close>

lemma max_by_area_mem: "max_by_area b cs \<in> set (b # cs)"
  by (induction cs arbitrary: b) auto

lemma max_by_area_ge_best: "contourArea b \<le> contourArea (max_by_area b cs)"
proof (induction cs arbitrary: b)
  case Nil
  then show ?case by simp
next
  case (Cons c cs)
  show ?case
  proof (cases "contourArea c > contourArea b")
    case True
    with Cons.IH [of c] show ?thesis by simp
  next
    case False
    with Cons.IH [of b] show ?thesis by simp
  qed
qed

lemma max_by_area_ge: "c \<in> set (b # cs) \<Longrightarrow> contourArea c \<le> contourArea (max_by_area b cs)"
proof (induction cs arbitrary: b)
  case Nil
  then show ?case by simp
next
  case (Cons a cs)
  let ?b' = "if contourArea a > contourArea b then a else b"
  from Cons.prems consider "c = b" | "c = a" | "c \<in> set cs" by auto
  then show ?case
  proof cases
    case 1
    have "contourArea b \<le> contourArea ?b'" by simp
    also have "\<dots> \<le> contourArea (max_by_area ?b' cs)" by (rule max_by_area_ge_best)
    finally show ?thesis using 1 by simp
  next
    case 2
    have "contourArea a \<le> contourArea ?b'" by simp
    also have "\<dots> \<le> contourArea (max_by_area ?b' cs)" by (rule max_by_area_ge_best)
    finally show ?thesis using 2 by simp
  next
    case 3
    then have "c \<in> set (?b' # cs)" by simp
    from Cons.IH [OF this] show ?thesis by simp
  qed
qed

lemma max_by_area_Max:
  "contourArea (max_by_area b cs) = Max (contourArea ` set (b # cs))"
proof (rule sym, rule Max_eqI)
  show "finite (contourArea ` set (b # cs))" by simp
next
  fix y assume "y \<in> contourArea ` set (b # cs)"
  then obtain c where "c \<in> set (b # cs)" "y = contourArea c" by auto
  then show "y \<le> contourArea (max_by_area b cs)" using max_by_area_ge by simp
next
  show "contourArea (max_by_area b cs) \<in> contourArea ` set (b # cs)"
    using max_by_area_mem [of b cs] by (rule imageI)
qed

lemma select_blob_threshold:
  "(select_blob cs \<noteq> None \<longleftrightarrow> cs \<noteq> [] \<and> 800 < Max (contourArea ` set cs)) \<and>
   (\<forall>c a. select_blob cs = Some (c, a) \<longrightarrow>
      c \<in> set cs \<and> a = contourArea c \<and> a = Max (contourArea ` set cs) \<and> 800 < a)"
proof (cases cs)
  case Nil
  then show ?thesis by (simp add: select_blob_def)
next
  case (Cons b bs)
  have m: "contourArea (max_by_area b bs) = Max (contourArea ` set cs)"
    unfolding Cons by (rule max_by_area_Max)
  have mem: "max_by_area b bs \<in> set cs"
    unfolding Cons by (rule max_by_area_mem)
  have sel: "select_blob cs =
      (if 800 < Max (contourArea ` set cs)
       then Some (max_by_area b bs, Max (contourArea ` set cs)) else None)"
    unfolding select_blob_def Cons Let_def using m [unfolded Cons] by simp
  show ?thesis
    unfolding sel using mem m Cons by auto
qed

text \<open>
  C3, as the program has it. The blob of a colour is what the selector makes of the
  contours found in the cleaned mask. The selector accepts exactly when there is a
  contour and the largest \<^verbatim>\<open>cv2.contourArea\<close> is greater than 800; the accepted blob
  is a contour of that largest area, which is therefore above 800. A largest contour
  area of 799 or of exactly 800 gives no blob, one of 801 gives a blob. The area that is
  compared is the area of the polygon through the border pixels, not the number of
  pixels of the region.
\<close>

theorem blob_area_threshold:
  assumes "build_mask hsv ranges None = Some msk"
  shows "color_blob cv hsv ranges = Inr (select_blob (findContours cv (clean_mask cv msk))) \<and>
         (select_blob cs \<noteq> None \<longleftrightarrow> cs \<noteq> [] \<and> 800 < Max (contourArea ` set cs)) \<and>
         (\<forall>c a. select_blob cs = Some (c, a) \<longrightarrow>
            c \<in> set cs \<and> a = contourArea c \<and> a = Max (contourArea ` set cs) \<and>
            800 < a \<and> 800 \<le> a) \<and>
         (cs \<noteq> [] \<and> Max (contourArea ` set cs) = 799 \<longrightarrow> select_blob cs = None) \<and>
         (cs \<noteq> [] \<and> Max (contourArea ` set cs) = 800 \<longrightarrow> select_blob cs = None) \<and>
         (cs \<noteq> [] \<and> Max (contourArea ` set cs) = 801 \<longrightarrow>
            (\<exists>c. c \<in> set cs \<and> select_blob cs = Some (c, 801)))"
proof -
  have cb: "color_blob cv hsv ranges = Inr (select_blob (findContours cv (clean_mask cv msk)))"
    using assms by (simp add: color_blob_def)
  note t = select_blob_threshold [of cs]
  have a: "select_blob cs \<noteq> None \<longleftrightarrow> cs \<noteq> [] \<and> 800 < Max (contourArea ` set cs)"
    using t by blast
  have b: "\<forall>c a. select_blob cs = Some (c, a) \<longrightarrow>
            c \<in> set cs \<and> a = contourArea c \<and> a = Max (contourArea ` set cs) \<and>
            800 < a \<and> 800 \<le> a"
    using t by auto
  have c799: "cs \<noteq> [] \<and> Max (contourArea ` set cs) = 799 \<longrightarrow> select_blob cs = None"
    using a by auto
  have c800: "cs \<noteq> [] \<and> Max (contourArea ` set cs) = 800 \<longrightarrow> select_blob cs = None"
    using a by auto
  have c801: "cs \<noteq> [] \<and> Max (contourArea ` set cs) = 801 \<longrightarrow>
            (\<exists>c. c \<in> set cs \<and> select_blob cs = Some (c, 801))"
  proof
    assume h: "cs \<noteq> [] \<and> Max (contourArea ` set cs) = 801"
    with a have "select_blob cs \<noteq> None" by simp
    then obtain c ar where s: "select_blob cs = Some (c, ar)" by (cases "select_blob cs") auto
    with b h have "c \<in> set cs" "ar = 801" by auto
    with s show "\<exists>c. c \<in> set cs \<and> select_blob cs = Some (c, 801)" by blast
  qed
  from cb a b c799 c800 c801 show ?thesis by blast
qed

theorem blob_area_threshold_witness:
  "build_mask [[green_pixel]] [((35, 100, 100), (85, 255, 255))] None = Some [[255]] \<and>
   color_blob sample_cv [[green_pixel]] [((35, 100, 100), (85, 255, 255))] =
     Inr (Some ([(270, 190), (270, 290), (370, 290), (370, 190)], 10000)) \<and>
   select_blob [strip 799] = None \<and>
   select_blob [strip 500, strip 801, strip 20] = Some (strip 801, 801) \<and>
   select_blob [strip 800] = None"
proof -
  have m: "build_mask [[green_pixel]] [((35, 100, 100), (85, 255, 255))] None = Some [[255]]"
    by (simp add: run_simps)
  have a799: "[strip 799] \<noteq> [] \<and> Max (contourArea ` set [strip 799]) = 799"
    and a801: "[strip 500, strip 801, strip 20] \<noteq> [] \<and>
               Max (contourArea ` set [strip 500, strip 801, strip 20]) = 801"
    and a800: "[strip 800] \<noteq> [] \<and> Max (contourArea ` set [strip 800]) = 800"
    by (simp_all add: strip_def contourArea_def)
  have fc: "select_blob (findContours sample_cv (clean_mask sample_cv [[255]])) =
              Some ([(270, 190), (270, 290), (370, 290), (370, 190)], 10000)"
    by (simp add: sample_cv_def clean_mask_def select_blob_def contourArea_def)
  have p4: "select_blob [strip 500, strip 801, strip 20] = Some (strip 801, 801)"
    by (simp add: select_blob_def strip_def contourArea_def)
  note t799 = blob_area_threshold [OF m, of sample_cv "[strip 799]"]
  note t800 = blob_area_threshold [OF m, of sample_cv "[strip 800]"]
  note t801 = blob_area_threshold [OF m, of sample_cv "[strip 500, strip 801, strip 20]"]
  from t799 have "color_blob sample_cv [[green_pixel]] [((35, 100, 100), (85, 255, 255))] =
      Inr (select_blob (findContours sample_cv (clean_mask sample_cv [[255]])))"
    by (rule conjunct1)
  with fc have p1: "color_blob sample_cv [[green_pixel]] [((35, 100, 100), (85, 255, 255))] =
     Inr (Some ([(270, 190), (270, 290), (370, 290), (370, 190)], 10000))"
    by (simp only:)
  from t799 a799 have p2: "select_blob [strip 799] = None" by blast
  from t800 a800 have p3: "select_blob [strip 800] = None" by blast
  from t801 a801 have p5:
    "\<exists>c. c \<in> set [strip 500, strip 801, strip 20] \<and>
         select_blob [strip 500, strip 801, strip 20] = Some (c, 801)"
    by blast
  from m p1 p2 p3 p4 show ?thesis by blast
qed

text \<open>
  C3, as stated, measures the region by its pixels. A filled rectangle of 267 by 3
  pixels is a region of 801 pixels. Its contour runs through the centres of its corner
  pixels and has the area 266 times 2, and the selector rejects it.
\<close>

theorem blob_area_threshold_counterexample:
  "pixel_count [(0, 0), (0, 2), (266, 2), (266, 0)] = 801 \<and>
   contourArea [(0, 0), (0, 2), (266, 2), (266, 0)] = 532 \<and>
   select_blob [[(0, 0), (0, 2), (266, 2), (266, 0)]] = None"
proof -
  have "pixel_count [(0, 0), (0, 2), (266, 2), (266, 0)] = 801"
    by code_simp
  moreover have "contourArea [(0, 0), (0, 2), (266, 2), (266, 0)] = 532"
    by (simp add: contourArea_def)
  ultimately show ?thesis
    by (simp add: select_blob_def)
qed

subsection \<open>The centroid of a blob\<close>

lemma min_list_from_le: "min_list_from m xs \<le> m"
proof (induction xs arbitrary: m)
  case Nil
  then show ?case by simp
next
  case (Cons x xs)
  have "min_list_from (min m x) xs \<le> min m x" by (rule Cons.IH)
  then show ?case by simp
qed

lemma max_list_from_ge: "m \<le> max_list_from m xs"
proof (induction xs arbitrary: m)
  case Nil
  then show ?case by simp
next
  case (Cons x xs)
  have "max m x \<le> max_list_from (max m x) xs" by (rule Cons.IH)
  then show ?case by simp
qed

lemma boundingRect_size:
  assumes "c \<noteq> []" and "boundingRect c = (x, y, w, h)"
  shows "1 \<le> w \<and> 1 \<le> h"
proof -
  from assms(1) obtain p ps where c: "c = p # ps" by (cases c) auto
  obtain x0 y0 where p: "p = (x0, y0)" by (cases p)
  have "min_list_from x0 (map fst ps) \<le> max_list_from x0 (map fst ps)"
    using min_list_from_le [of x0 "map fst ps"] max_list_from_ge [of x0 "map fst ps"] by linarith
  moreover have "min_list_from y0 (map snd ps) \<le> max_list_from y0 (map snd ps)"
    using min_list_from_le [of y0 "map snd ps"] max_list_from_ge [of y0 "map snd ps"] by linarith
  ultimately show ?thesis
    using assms(2) unfolding c p boundingRect_def Let_def by auto
qed

lemma select_blob_nonempty:
  assumes "select_blob cs = Some (c, a)"
  shows "c \<noteq> []"
proof
  assume "c = []"
  then have "contourArea c = 0" by (simp add: contourArea_def)
  moreover from assms have "800 < contourArea c"
    unfolding select_blob_def Let_def by (auto split: list.splits if_splits)
  ultimately show False by simp
qed

text \<open>
  C9. The centroid stored for an accepted blob is the integer centre of the bounding
  rectangle \<open>(x, y, w, h)\<close> of its contour, \<open>(x + w div 2, y + h div 2)\<close>. It lies in
  the rectangle. It is not a centre of mass and need not lie in the region: for the
  L-shaped contour \<open>ell\<close>, which is accepted with area 1900, it is the point (50, 50),
  which the contour does not enclose.
\<close>

theorem bounding_box_centroid:
  assumes "select_blob cs = Some (c, a)"
    and "boundingRect c = (x, y, w, h)"
  shows "cx (snd (accept_blob frm n c s v)) = Some (x + w div 2) \<and>
         cy (snd (accept_blob frm n c s v)) = Some (y + h div 2) \<and>
         x \<le> x + w div 2 \<and> x + w div 2 < x + w \<and>
         y \<le> y + h div 2 \<and> y + h div 2 < y + h \<and>
         (select_blob [ell] = Some (ell, 1900) \<and> boundingRect ell = (0, 0, 101, 101) \<and>
          cx (snd (accept_blob frm n ell s v)) = Some 50 \<and>
          cy (snd (accept_blob frm n ell s v)) = Some 50 \<and>
          \<not> inside_contour ell (50, 50))"
proof -
  from boundingRect_size [OF select_blob_nonempty [OF assms(1)] assms(2)]
  have wh: "1 \<le> w" "1 \<le> h" by simp_all
  have inbox: "0 \<le> w div 2" "w div 2 < w" "0 \<le> h div 2" "h div 2 < h"
    using wh by presburger+
  have e1: "select_blob [ell] = Some (ell, 1900)"
    by (simp add: select_blob_def ell_def contourArea_def)
  have e2: "boundingRect ell = (0, 0, 101, 101)"
    by (simp add: boundingRect_def ell_def)
  have e3: "\<not> inside_contour ell (50, 50)"
    by (simp add: inside_contour_def ell_def)
  show ?thesis
    using inbox e1 e3 e2 accept_blob_eq [OF assms(2), of frm n s v]
      accept_blob_eq [OF e2, of frm n s v]
    by simp
qed

theorem bounding_box_centroid_witness:
  "select_blob [strip 801] = Some (strip 801, 801) \<and>
   boundingRect (strip 801) = (0, 0, 802, 2) \<and>
   cx (snd (accept_blob (uniform_frame green_pixel) ''Green'' (strip 801)
        initial_tracker frame_defaults)) = Some 401 \<and>
   cy (snd (accept_blob (uniform_frame green_pixel) ''Green'' (strip 801)
        initial_tracker frame_defaults)) = Some 1 \<and>
   inside_contour (strip 801) (401, 0) \<and>
   \<not> inside_contour ell (50, 50)"
proof -
  have a: "select_blob [strip 801] = Some (strip 801, 801)"
    by (simp add: select_blob_def strip_def contourArea_def)
  have b: "boundingRect (strip 801) = (0, 0, 802, 2)"
    by (simp add: boundingRect_def strip_def)
  have c: "inside_contour (strip 801) (401, 0)"
    by (simp add: inside_contour_def strip_def)
  show ?thesis
    using bounding_box_centroid [OF a b, of "uniform_frame green_pixel" "''Green''"
        initial_tracker frame_defaults] a b c
    by simp
qed

subsection \<open>The first colour with a blob wins\<close>

lemma detect_colors_skip:
  assumes "\<forall>(n, rs) \<in> set pre. color_blob cv hsv rs = Inr None"
    and "\<not> truthy (detected_color v)"
  shows "detect_colors cv frm hsv (pre @ rest) s v = detect_colors cv frm hsv rest s v"
  using assms(1)
proof (induction pre)
  case Nil
  then show ?case by simp
next
  case (Cons a pre)
  obtain n rs where a: "a = (n, rs)" by (cases a)
  from Cons.prems a have "color_blob cv hsv rs = Inr None" by simp
  moreover from Cons.prems have "\<forall>(n, rs) \<in> set pre. color_blob cv hsv rs = Inr None" by simp
  ultimately show ?case using Cons.IH assms(2) a by simp
qed

text \<open>
  C5. The colours are tried in the order of the list. When the colours before one give
  no blob and that one gives an accepted blob, the loop ends there with that blob and
  that colour name, whatever colours follow and whatever they would have given. The
  frame variables hold one centroid and one colour name.
\<close>

theorem first_match_wins:
  assumes "\<forall>(n, rs) \<in> set pre. color_blob cv hsv rs = Inr None"
    and "color_blob cv hsv ranges = Inr (Some (c, a))"
  shows "detect_colors cv frm hsv (pre @ (color_name, ranges) # post) s frame_defaults =
           Inr (accept_blob frm color_name c s frame_defaults) \<and>
         detected_color (snd (accept_blob frm color_name c s frame_defaults)) =
           Some color_name"
proof -
  have nt: "\<not> truthy (detected_color frame_defaults)"
    by (simp add: truthy_def frame_defaults_def)
  obtain x y w h where br: "boundingRect c = (x, y, w, h)"
    by (cases "boundingRect c") auto
  show ?thesis
    using detect_colors_skip [OF assms(1) nt, of frm "(color_name, ranges) # post" s] assms(2)
      accept_blob_eq [OF br, of frm color_name s frame_defaults]
    by simp
qed

theorem first_match_wins_witness:
  "detect_colors sample_cv red_green_frame red_green_frame colors initial_tracker
     frame_defaults =
   Inr (initial_tracker\<lparr>frame_height := 480, frame_width := 640\<rparr>,
        \<lparr>direction = ''Move Forward'', detected_color = Some ''Red'',
          cx = Some 320, cy = Some 240\<rparr>) \<and>
   color_blob sample_cv red_green_frame [((35, 100, 100), (85, 255, 255))] =
     Inr (Some ([(270, 190), (270, 290), (370, 290), (370, 190)], 10000)) \<and>
   detect_colors sample_cv (uniform_frame green_pixel) (uniform_frame green_pixel) colors
     initial_tracker frame_defaults =
   Inr (initial_tracker\<lparr>frame_height := 480, frame_width := 640\<rparr>,
        \<lparr>direction = ''Move Forward'', detected_color = Some ''Green'',
          cx = Some 320, cy = Some 240\<rparr>)"
proof -
  let ?sq = "[(270, 190), (270, 290), (370, 290), (370, 190)] :: contour"
  let ?red = "[((0, 120, 70), (10, 255, 255)), ((170, 120, 70), (180, 255, 255))]
                :: (bound \<times> bound) list"
  let ?blue = "[((94, 80, 2), (126, 255, 255))] :: (bound \<times> bound) list"
  let ?green = "[((35, 100, 100), (85, 255, 255))] :: (bound \<times> bound) list"
  let ?yellow = "[((20, 100, 100), (30, 255, 255))] :: (bound \<times> bound) list"
  have r: "color_blob sample_cv red_green_frame ?red = Inr (Some (?sq, 10000))"
    by (simp add: run_simps red_green_frame_def)
  have g: "color_blob sample_cv red_green_frame ?green = Inr (Some (?sq, 10000))"
    by (simp add: run_simps red_green_frame_def)
  have p0: "\<forall>(n, rs) \<in> set ([] :: (string \<times> (bound \<times> bound) list) list).
              color_blob sample_cv red_green_frame rs = Inr None"
    by simp
  have p2: "\<forall>(n, rs) \<in> set [(''Red'', ?red), (''Blue'', ?blue)].
              color_blob sample_cv (uniform_frame green_pixel) rs = Inr None"
    by (simp add: run_simps)
  have g2: "color_blob sample_cv (uniform_frame green_pixel) ?green = Inr (Some (?sq, 10000))"
    by (simp add: run_simps)
  show ?thesis
    using first_match_wins [OF p0 r, of red_green_frame "''Red''"
        "[(''Blue'', ?blue), (''Green'', ?green), (''Yellow'', ?yellow)]" initial_tracker]
      first_match_wins [OF p2 g2, of "uniform_frame green_pixel" "''Green''"
        "[(''Yellow'', ?yellow)]" initial_tracker]
      g
    by (simp add: colors_def accept_blob_def boundingRect_def direction_of_def
        shape_replicate red_green_frame_def uniform_frame_def frame_defaults_def
        initial_tracker_def Let_def)
qed

subsection \<open>Masks without a set pixel\<close>

lemma zero_mask_inRange:
  assumes "\<forall>row \<in> set hsv. \<forall>p \<in> set row. \<not> in_bounds lower upper p"
  shows "inRange hsv lower upper = zero_mask hsv"
  using assms unfolding inRange_def zero_mask_def by simp

lemma map2_or_zero:
  "map2 (OR) (map (\<lambda>p. 0 :: 8 word) row) (map (\<lambda>p. 0) row) = map (\<lambda>p. 0) row"
  by (induction row) simp_all

lemma bitwise_or_zero_mask:
  "bitwise_or (zero_mask hsv) (zero_mask hsv) = zero_mask hsv"
  unfolding bitwise_or_def zero_mask_def
  by (induction hsv) (simp_all add: map2_or_zero)

lemma build_mask_zero:
  assumes "\<forall>(lower, upper) \<in> set ranges.
             \<forall>row \<in> set hsv. \<forall>p \<in> set row. \<not> in_bounds lower upper p"
    and "msk = None \<or> msk = Some (zero_mask hsv)"
    and "ranges \<noteq> [] \<or> msk \<noteq> None"
  shows "build_mask hsv ranges msk = Some (zero_mask hsv)"
  using assms
proof (induction ranges arbitrary: msk)
  case Nil
  then show ?case by auto
next
  case (Cons r ranges)
  obtain lower upper where r: "r = (lower, upper)" by (cases r)
  from Cons.prems(1) r have z: "inRange hsv lower upper = zero_mask hsv"
    by (intro zero_mask_inRange) auto
  have step: "(case msk of None \<Rightarrow> inRange hsv lower upper
               | Some m \<Rightarrow> bitwise_or m (inRange hsv lower upper)) = zero_mask hsv"
    using Cons.prems(2) z by (auto simp: bitwise_or_zero_mask)
  have "build_mask hsv ranges (Some (zero_mask hsv)) = Some (zero_mask hsv)"
    using Cons.prems(1) by (intro Cons.IH) auto
  then show ?case
    unfolding r by (simp add: Let_def step)
qed

lemma zero_mask_map: "zero_mask (map (map g) img) = zero_mask img"
  unfolding zero_mask_def by (simp add: comp_def)

lemma zero_mask_mirror: "zero_mask (mirror img) = zero_mask img"
proof -
  have "map (\<lambda>p. 0 :: 8 word) (rev r) = map (\<lambda>p. 0) r" for r :: "pixel list"
    by (induction r) (simp_all add: replicate_append_same map_replicate_const)
  then show ?thesis
    unfolding zero_mask_def mirror_def by (simp add: comp_def)
qed

lemma shape_mirror: "shape (mirror img) = shape img"
  unfolding shape_def mirror_def by (cases img) simp_all

subsection \<open>Frames on which the pass cannot fail\<close>

lemma randint_range:
  assumes "randint rnd i a b = Inr r"
  shows "a \<le> r \<and> r \<le> b"
proof -
  from assms have ab: "a \<le> b" and r: "r = a + int (rnd i mod nat (b - a + 1))"
    unfolding randint_def by (auto split: if_splits)
  have "rnd i mod nat (b - a + 1) < nat (b - a + 1)"
    using ab by (intro mod_less_divisor) simp
  then have "int (rnd i mod nat (b - a + 1)) < b - a + 1"
    using ab by linarith
  with r show ?thesis by simp
qed

lemma new_random_target_range:
  assumes "new_random_target rnd i w h 50 = Inr t"
  shows "in_inset w h t"
  using assms unfolding new_random_target_def in_inset_def
  by (auto split: sum.splits dest: randint_range)

lemma new_random_target_total:
  assumes "100 \<le> w" and "100 \<le> h"
  shows "\<exists>t. new_random_target rnd i w h 50 = Inr t"
  using assms unfolding new_random_target_def randint_def by simp

lemma build_mask_Some: "build_mask hsv ranges (Some m) \<noteq> None"
  by (induction ranges arbitrary: m) auto

lemma build_mask_ranges: "ranges \<noteq> [] \<Longrightarrow> build_mask hsv ranges None \<noteq> None"
proof (cases ranges)
  case Nil
  then show "ranges \<noteq> [] \<Longrightarrow> ?thesis" by simp
next
  case (Cons r rs)
  obtain lower upper where "r = (lower, upper)" by (cases r)
  with Cons show ?thesis
    using build_mask_Some [of hsv rs "inRange hsv lower upper"] by (simp add: Let_def)
qed

lemma color_blob_total:
  assumes "ranges \<noteq> []"
  shows "\<exists>b. color_blob cv hsv ranges = Inr b"
  using build_mask_ranges [OF assms, of hsv] unfolding color_blob_def
  by (auto split: option.splits)

lemma detect_colors_total:
  assumes "\<forall>(n, rs) \<in> set cs. rs \<noteq> []"
  shows "\<exists>s2 v2. detect_colors cv frm hsv cs s v = Inr (s2, v2)"
  using assms
proof (induction cs)
  case Nil
  then show ?case by simp
next
  case (Cons a cs)
  obtain n rs where a: "a = (n, rs)" by (cases a)
  from Cons.prems a have "rs \<noteq> []" by simp
  from color_blob_total [OF this] obtain b where b: "color_blob cv hsv rs = Inr b" by blast
  from Cons.prems have "\<forall>(n, rs) \<in> set cs. rs \<noteq> []" by simp
  from Cons.IH [OF this] obtain s2 v2 where
    ih: "detect_colors cv frm hsv cs s v = Inr (s2, v2)" by blast
  show ?case
  proof (cases b)
    case None
    with a b ih show ?thesis by simp
  next
    case (Some ca)
    obtain c ar where "ca = (c, ar)" by (cases ca)
    with Some a b show ?thesis
      by (cases "accept_blob frm n c s v") simp
  qed
qed

lemma colors_ranges: "\<forall>(n, rs) \<in> set colors. rs \<noteq> []"
  by (simp add: colors_def)

lemma navigate_total:
  assumes "100 \<le> frame_width s" and "100 \<le> frame_height s"
  shows "\<exists>s' nav d. navigate rnd f s v t = Inr (s', nav, d) \<and>
           (s' = s \<or>
            (\<exists>t'. new_random_target rnd (draws s) (frame_width s) (frame_height s) 50 = Inr t' \<and>
                  s' = s\<lparr>target_reached_time := now_stamp f, target := Some t',
                          draws := draws s + 2\<rparr>))"
proof -
  from new_random_target_total [OF assms, of rnd "draws s"] obtain t' where
    t': "new_random_target rnd (draws s) (frame_width s) (frame_height s) 50 = Inr t'" by blast
  have gate: "reach_gate rnd f s = Inr s \<or>
              reach_gate rnd f s =
                Inr (s\<lparr>target_reached_time := now_stamp f, target := Some t',
                       draws := draws s + 2\<rparr>)"
    unfolding reach_gate_def assign_new_target_def using t' by simp
  show ?thesis
    unfolding navigate_def Let_def using gate t'
    by (auto split: option.splits)
qed

lemma frame_step_inv:
  assumes shp: "shape (frame f) = (h, w)" and w: "100 \<le> w" and h: "100 \<le> h"
    and inv: "initialized s \<longrightarrow> tracker_ok w h s"
  shows "\<exists>s' out. frame_step cv rnd s f = Inr (s', out) \<and> tracker_ok w h s' \<and>
           in_inset w h (shown_target out)"
proof -
  have "\<exists>s1 frm0. init_target rnd s (frame f) = Inr (s1, frm0) \<and> tracker_ok w h s1 \<and>
          shape frm0 = (h, w)"
  proof (cases "initialized s")
    case True
    with inv shp show ?thesis by (simp add: init_target_def)
  next
    case False
    from new_random_target_total [OF w h, of rnd "draws s"] obtain t where
      t: "new_random_target rnd (draws s) w h 50 = Inr t" by blast
    from new_random_target_range [OF t] have "in_inset w h t" .
    moreover from shp w h have "\<not> empty_image (frame f)" by (simp add: empty_image_def)
    ultimately show ?thesis
      using False t shp
      by (simp add: init_target_def flip_def Let_def shape_mirror assign_new_target_def
          tracker_ok_def)
  qed
  then obtain s1 frm0 where
    ini: "init_target rnd s (frame f) = Inr (s1, frm0)" and ok1: "tracker_ok w h s1" and
    shp0: "shape frm0 = (h, w)" by blast
  from shp0 w h have "\<not> empty_image frm0" by (simp add: empty_image_def)
  then have fl: "flip frm0 = Some (mirror frm0)" by (simp add: flip_def)
  have shp1: "shape (mirror frm0) = (h, w)" using shp0 by (simp add: shape_mirror)
  then have "\<not> empty_image (mirror frm0)" using w h by (simp add: empty_image_def)
  then have cvt: "cvtColor cv (mirror frm0) = Inr (map (map (bgr2hsv cv)) (mirror frm0))"
    by (simp add: cvtColor_def)
  let ?hsv = "map (map (bgr2hsv cv)) (mirror frm0)"
  from detect_colors_total [OF colors_ranges] obtain s2 v where
    det: "detect_colors cv (mirror frm0) ?hsv colors s1 frame_defaults = Inr (s2, v)" by blast
  from detect_colors_Inr [OF det] shp1 ok1 have ok2: "tracker_ok w h s2"
    by (auto simp: tracker_ok_def)
  then obtain t where t: "target s2 = Some t" "in_inset w h t"
    by (auto simp: tracker_ok_def split: option.splits)
  then have ens: "ensure_target rnd s2 = Inr (s2, t)" by (simp add: ensure_target_def)
  from ok2 w h have dims: "100 \<le> frame_width s2" "100 \<le> frame_height s2"
    by (simp_all add: tracker_ok_def)
  from navigate_total [OF dims, of rnd f v t] obtain s' nav d where
    nav: "navigate rnd f s2 v t = Inr (s', nav, d)" and
    s': "s' = s2 \<or>
         (\<exists>t'. new_random_target rnd (draws s2) (frame_width s2) (frame_height s2) 50 = Inr t' \<and>
               s' = s2\<lparr>target_reached_time := now_stamp f, target := Some t',
                        draws := draws s2 + 2\<rparr>)"
    by blast
  have ok': "tracker_ok w h s'"
    using s' ok2 by (auto simp: tracker_ok_def dest: new_random_target_range)
  show ?thesis
    unfolding frame_step_def using ini fl cvt det ens nav ok' t(2) by simp
qed

subsection \<open>Targets lie in the inset rectangle\<close>

lemma run_inv:
  assumes "\<forall>f \<in> set fs. shape (frame f) = (h, w)" and "100 \<le> w" and "100 \<le> h"
    and "initialized s \<longrightarrow> tracker_ok w h s"
  shows "\<exists>s' ds running. run cv rnd s fs = Inr (s', ds, running) \<and>
           (\<forall>d \<in> set ds. in_inset w h (shown_target d)) \<and>
           (ds \<noteq> [] \<or> initialized s \<longrightarrow> tracker_ok w h s')"
  using assms(1,4)
proof (induction fs arbitrary: s)
  case Nil
  then show ?case by auto
next
  case (Cons f fs)
  show ?case
  proof (cases "ret f")
    case False
    with Cons.prems show ?thesis by auto
  next
    case True
    from Cons.prems have shp: "shape (frame f) = (h, w)" by simp
    from frame_step_inv [OF shp assms(2,3) Cons.prems(2), of cv rnd] obtain s1 out where
      st: "frame_step cv rnd s f = Inr (s1, out)" and ok1: "tracker_ok w h s1" and
      tgt: "in_inset w h (shown_target out)" by blast
    show ?thesis
    proof (cases "key f AND 255 = 113")
      case q: True
      with True st ok1 tgt show ?thesis by auto
    next
      case q: False
      from Cons.prems have "\<forall>f \<in> set fs. shape (frame f) = (h, w)" by simp
      moreover from ok1 have "initialized s1 \<longrightarrow> tracker_ok w h s1" by simp
      ultimately obtain s' ds running where
        r: "run cv rnd s1 fs = Inr (s', ds, running)" and
        ds: "\<forall>d \<in> set ds. in_inset w h (shown_target d)" and
        ok': "ds \<noteq> [] \<or> initialized s1 \<longrightarrow> tracker_ok w h s'"
        using Cons.IH [of s1] by blast
      from ok1 have "initialized s1" by (simp add: tracker_ok_def)
      with ok' have "tracker_ok w h s'" by simp
      with True q st r ds tgt show ?thesis by auto
    qed
  qed
qed

text \<open>
  C6. A target that \<open>new_random_target\<close> produces lies in the inset rectangle of the
  frame size it was asked for, and for a frame of at least 100 by 100 pixels it always
  produces one. Over frames of one size \<open>w\<close> by \<open>h\<close> the loop started from the initial
  tracker does not fail, every target it shows lies in the inset rectangle, and after
  the first frame the tracker is initialised and holds such a target.
\<close>

theorem target_in_inset:
  assumes "\<forall>f \<in> set fs. shape (frame f) = (h, w)" and "100 \<le> w" and "100 \<le> h"
  shows "(\<forall>rnd' i w' h' t. new_random_target rnd' i w' h' 50 = Inr t \<longrightarrow> in_inset w' h' t) \<and>
         (\<forall>rnd' i. \<exists>t. new_random_target rnd' i w h 50 = Inr t) \<and>
         (\<exists>s' ds running.
            run cv rnd initial_tracker fs = Inr (s', ds, running) \<and>
            (\<forall>d \<in> set ds. in_inset w h (shown_target d)) \<and>
            (ds \<noteq> [] \<longrightarrow> tracker_ok w h s'))"
proof -
  have "initialized initial_tracker \<longrightarrow> tracker_ok w h initial_tracker"
    by (simp add: initial_tracker_def)
  from run_inv [OF assms this, of cv rnd] show ?thesis
    using new_random_target_range new_random_target_total [OF assms(2,3)] by blast
qed

lemma sample_run:
  "run sample_cv centre_rnd initial_tracker
     [camera (uniform_frame grey_pixel) 5000, camera (uniform_frame green_pixel) 5001] =
   Inr (\<lparr>initialized = True, target = Some (240, 240), target_reached_time = 5001,
          frame_height = 480, frame_width = 640, draws = 4\<rparr>,
        [\<lparr>shown_direction = ''No Object Detected'', shown_color = None,
           nav_instruction = ''No object to navigate'', dist = None,
           shown_target = (320, 240), centroid = None\<rparr>,
         \<lparr>shown_direction = ''Move Forward'', shown_color = Some ''Green'',
           nav_instruction = ''Target Reached'', dist = Some 0,
           shown_target = (320, 240), centroid = Some (320, 240)\<rparr>],
        True)"
  by (simp add: run_simps centre_rnd_def)

theorem target_in_inset_witness:
  "run sample_cv centre_rnd initial_tracker
     [camera (uniform_frame grey_pixel) 5000, camera (uniform_frame green_pixel) 5001] =
   Inr (\<lparr>initialized = True, target = Some (240, 240), target_reached_time = 5001,
          frame_height = 480, frame_width = 640, draws = 4\<rparr>,
        [\<lparr>shown_direction = ''No Object Detected'', shown_color = None,
           nav_instruction = ''No object to navigate'', dist = None,
           shown_target = (320, 240), centroid = None\<rparr>,
         \<lparr>shown_direction = ''Move Forward'', shown_color = Some ''Green'',
           nav_instruction = ''Target Reached'', dist = Some 0,
           shown_target = (320, 240), centroid = Some (320, 240)\<rparr>],
        True) \<and>
   new_random_target centre_rnd 0 640 480 50 = Inr (320, 240) \<and>
   new_random_target centre_rnd 2 640 480 50 = Inr (240, 240) \<and>
   in_inset 640 480 (320, 240) \<and> in_inset 640 480 (240, 240) \<and>
   tracker_ok 640 480
     \<lparr>initialized = True, target = Some (240, 240), target_reached_time = 5001,
       frame_height = 480, frame_width = 640, draws = 4\<rparr>"
proof -
  have shp: "\<forall>f \<in> set [camera (uniform_frame grey_pixel) 5000,
                          camera (uniform_frame green_pixel) 5001].
               shape (frame f) = (480, 640)"
    by (simp add: camera_def uniform_frame_def shape_replicate)
  have w: "(100 :: int) \<le> 640" and h: "(100 :: int) \<le> 480" by simp_all
  show ?thesis
    using target_in_inset [OF shp w h, of sample_cv centre_rnd] sample_run
    by (simp add: new_random_target_def randint_def centre_rnd_def in_inset_def tracker_ok_def)
qed

subsection \<open>Frames without a pixel of any colour\<close>

lemma no_pixels_color_blob:
  assumes nopix: "\<forall>row \<in> set img. \<forall>p \<in> set row. \<forall>(lower, upper) \<in> set rs.
                    \<not> in_bounds lower upper (bgr2hsv cv p)"
    and lib: "findContours cv (clean_mask cv (zero_mask img)) = []"
    and rs: "rs \<noteq> []"
    and pix: "\<forall>row \<in> set img'. \<forall>p \<in> set row. \<exists>row0 \<in> set img. p \<in> set row0"
    and zm: "zero_mask img' = zero_mask img"
  shows "color_blob cv (map (map (bgr2hsv cv)) img') rs = Inr None"
proof -
  let ?hsv = "map (map (bgr2hsv cv)) img'"
  have "\<forall>(lower, upper) \<in> set rs. \<forall>row \<in> set ?hsv. \<forall>p \<in> set row. \<not> in_bounds lower upper p"
    using nopix pix by fastforce
  from build_mask_zero [OF this, of None] rs
  have "build_mask ?hsv rs None = Some (zero_mask ?hsv)" by simp
  moreover have "zero_mask ?hsv = zero_mask img" using zm by (simp add: zero_mask_map)
  ultimately show ?thesis
    using lib by (simp add: color_blob_def select_blob_def)
qed

lemma mirror_pixels: "\<forall>row \<in> set (mirror img). \<forall>p \<in> set row. \<exists>row0 \<in> set img. p \<in> set row0"
  unfolding mirror_def by auto

lemma mirror_mirror [simp]: "mirror (mirror img) = img"
  unfolding mirror_def by (simp add: comp_def)

text \<open>
  C7. When no pixel of the converted frame lies in a range of a colour (and the library
  finds no contour in a mask without a set pixel), no colour gives a blob, the direction
  is \<open>No Object Detected\<close>, the instruction is \<open>No object to navigate\<close>, and there is
  neither a distance nor a centroid. The frame is not empty, and the tracker has a
  target or can draw its first one.
\<close>

theorem no_object_detected:
  assumes nopix: "\<forall>row \<in> set (frame f). \<forall>p \<in> set row. \<forall>(n, rs) \<in> set colors.
                    \<forall>(lower, upper) \<in> set rs. \<not> in_bounds lower upper (bgr2hsv cv p)"
    and lib: "findContours cv (clean_mask cv (zero_mask (frame f))) = []"
    and nonempty: "\<not> empty_image (frame f)"
    and ready: "if initialized s then target s \<noteq> None
                else 100 \<le> fst (shape (frame f)) \<and> 100 \<le> snd (shape (frame f))"
  shows "(\<forall>img \<in> {frame f, mirror (frame f)}. \<forall>(n, rs) \<in> set colors.
            color_blob cv (map (map (bgr2hsv cv)) img) rs = Inr None) \<and>
         (\<exists>s' t. frame_step cv rnd s f =
            Inr (s', \<lparr>shown_direction = ''No Object Detected'', shown_color = None,
                       nav_instruction = ''No object to navigate'', dist = None,
                       shown_target = t, centroid = None\<rparr>))"
proof -
  have blob: "color_blob cv (map (map (bgr2hsv cv)) img') rs = Inr None"
    if "(n, rs) \<in> set colors" and
      "\<forall>row \<in> set img'. \<forall>p \<in> set row. \<exists>row0 \<in> set (frame f). p \<in> set row0" and
      "zero_mask img' = zero_mask (frame f)" for n rs img'
  proof -
    from that(1) nopix have
      "\<forall>row \<in> set (frame f). \<forall>p \<in> set row. \<forall>(lower, upper) \<in> set rs.
         \<not> in_bounds lower upper (bgr2hsv cv p)"
      by fastforce
    moreover from that(1) colors_ranges have "rs \<noteq> []" by fastforce
    ultimately show ?thesis
      using lib that(2,3) by (intro no_pixels_color_blob)
  qed
  have b1: "\<forall>(n, rs) \<in> set colors. color_blob cv (map (map (bgr2hsv cv)) (frame f)) rs = Inr None"
    using blob [of _ _ "frame f"] by auto
  have b2: "\<forall>(n, rs) \<in> set colors.
              color_blob cv (map (map (bgr2hsv cv)) (mirror (frame f))) rs = Inr None"
    using blob [of _ _ "mirror (frame f)"] mirror_pixels [of "frame f"] zero_mask_mirror [of "frame f"]
    by auto
  have nt: "\<not> truthy (detected_color frame_defaults)"
    by (simp add: truthy_def frame_defaults_def)
  have det: "detect_colors cv frm (map (map (bgr2hsv cv)) img) colors s1 frame_defaults =
               Inr (s1, frame_defaults)"
    if "img = frame f \<or> img = mirror (frame f)" for frm img s1
    using that detect_colors_skip [of colors cv "map (map (bgr2hsv cv)) img" frame_defaults
        frm "[]" s1] b1 b2 nt
    by auto
  have nav: "navigate rnd f s1 frame_defaults t = Inr (s1, ''No object to navigate'', None)"
    for s1 t
    by (simp add: navigate_def frame_defaults_def)
  have ne: "\<not> empty_image (mirror (frame f))"
    using nonempty by (simp add: empty_image_def shape_mirror)
  have fl1: "flip (frame f) = Some (mirror (frame f))"
    using nonempty by (simp add: flip_def)
  have fl2: "flip (mirror (frame f)) = Some (frame f)"
    using ne by (simp add: flip_def)
  have step: "\<exists>s' t. frame_step cv rnd s f =
            Inr (s', \<lparr>shown_direction = ''No Object Detected'', shown_color = None,
                       nav_instruction = ''No object to navigate'', dist = None,
                       shown_target = t, centroid = None\<rparr>)"
  proof (cases "initialized s")
    case True
    with ready obtain t where t: "target s = Some t" by auto
    show ?thesis
      unfolding frame_step_def
      using True t ne fl1 det [of "mirror (frame f)"] nav
      by (simp add: init_target_def cvtColor_def ensure_target_def frame_defaults_def)
  next
    case False
    with ready have d: "100 \<le> snd (shape (mirror (frame f)))" "100 \<le> fst (shape (mirror (frame f)))"
      by (simp_all add: shape_mirror)
    from new_random_target_total [OF d, of rnd "draws s"] obtain t where
      t: "new_random_target rnd (draws s) (snd (shape (mirror (frame f))))
            (fst (shape (mirror (frame f)))) 50 = Inr t" by blast
    show ?thesis
      unfolding frame_step_def
      using False t nonempty fl1 fl2 det [of "frame f"] nav
      by (simp add: init_target_def assign_new_target_def cvtColor_def ensure_target_def
          frame_defaults_def Let_def)
  qed
  from b1 b2 step show ?thesis by simp
qed

theorem no_object_detected_witness:
  "frame_step sample_cv sample_rnd initial_tracker (camera (uniform_frame grey_pixel) 5000) =
   Inr (\<lparr>initialized = True, target = Some (53, 60), target_reached_time = 0,
          frame_height = 480, frame_width = 640, draws = 2\<rparr>,
        \<lparr>shown_direction = ''No Object Detected'', shown_color = None,
          nav_instruction = ''No object to navigate'', dist = None,
          shown_target = (53, 60), centroid = None\<rparr>) \<and>
   color_blob sample_cv (uniform_frame grey_pixel)
     [((0, 120, 70), (10, 255, 255)), ((170, 120, 70), (180, 255, 255))] = Inr None \<and>
   color_blob sample_cv (uniform_frame grey_pixel) [((94, 80, 2), (126, 255, 255))] = Inr None \<and>
   color_blob sample_cv (uniform_frame grey_pixel) [((35, 100, 100), (85, 255, 255))] = Inr None \<and>
   color_blob sample_cv (uniform_frame grey_pixel) [((20, 100, 100), (30, 255, 255))] = Inr None"
proof -
  let ?f = "camera (uniform_frame grey_pixel) 5000"
  have nopix: "\<forall>row \<in> set (frame ?f). \<forall>p \<in> set row. \<forall>(n, rs) \<in> set colors.
                 \<forall>(lower, upper) \<in> set rs. \<not> in_bounds lower upper (bgr2hsv sample_cv p)"
    by (simp add: run_simps)
  have lib: "findContours sample_cv (clean_mask sample_cv (zero_mask (frame ?f))) = []"
    by (simp add: run_simps zero_mask_def)
  have nonempty: "\<not> empty_image (frame ?f)"
    by (simp add: run_simps)
  have ready: "if initialized initial_tracker then target initial_tracker \<noteq> None
               else 100 \<le> fst (shape (frame ?f)) \<and> 100 \<le> snd (shape (frame ?f))"
    by (simp add: run_simps)
  show ?thesis
    using no_object_detected [OF nopix lib nonempty ready, of sample_rnd]
    by (simp add: run_simps)
qed

subsection \<open>Zero-sized frames\<close>





subsection \<open>Evaluating the navigation twice\<close>

lemma navigate_output:
  assumes "navigate rnd f s v t = Inr (s', nav, d)"
    and "navigate rnd2 f2 s2 v t = Inr (s2', nav2, d2)"
  shows "nav2 = nav \<and> d2 = d"
  using assms unfolding navigate_def Let_def
  by (auto split: option.splits sum.splits if_splits)

lemma navigate_state:
  assumes "navigate rnd f s v t = Inr (s', nav, d)"
  shows "s' = s \<or> (nav = ''Target Reached'' \<and> reach_gate rnd f s = Inr s')"
  using assms unfolding navigate_def Let_def
  by (auto split: option.splits sum.splits if_splits)

lemma frame_step_draws:
  assumes step: "frame_step cv rnd s f = Inr (s', out)"
  shows "draws s' \<le> (if initialized s \<and> target s \<noteq> None then draws s else draws s + 2) + 2"
proof -
  from frame_step_InrD [OF step] obtain s1 frm0 hsv s2 v s3 t nav d where
    ini: "init_target rnd s (frame f) = Inr (s1, frm0)" and
    det: "detect_colors cv (mirror frm0) hsv colors s1 frame_defaults = Inr (s2, v)" and
    ens: "ensure_target rnd s2 = Inr (s3, t)" and
    nav: "navigate rnd f s3 v t = Inr (s', nav, d)"
    by blast
  note I = init_target_Inr [OF ini]
  note E = ensure_target_Inr [OF ens]
  from detect_colors_Inr [OF det]
  have D: "target s2 = target s1 \<and> draws s2 = draws s1" by auto
  have draws3: "draws s3 = (if initialized s \<and> target s \<noteq> None then draws s else draws s + 2)"
  proof (cases "initialized s")
    case True
    with I have "s1 = s" by simp
    with D E True show ?thesis by (cases "target s") auto
  next
    case False
    with I have "draws s1 = draws s + 2" "target s1 \<noteq> None" by auto
    with D E False show ?thesis by auto
  qed
  from navigate_state [OF nav] have "draws s' \<le> draws s3 + 2"
    unfolding reach_gate_def by (auto split: if_splits dest!: assign_new_target_Inr)
  with draws3 show ?thesis by simp
qed

text \<open>
  C8. The instruction and the distance are a function of the centroid and the target:
  evaluating the navigation block a second time on them gives the same instruction and
  the same distance, whatever the clock and the tracker are. When the second evaluation
  reads the clock no more than the cooldown after the first stored its timestamp (no
  time has elapsed, in particular), the two evaluations together draw at most one new
  target, and a second evaluation after a registered reach changes nothing. One pass of
  the loop evaluates the block once, so a frame draws at most one new target beyond the
  initial one.
\<close>

theorem navigator_idempotent:
  assumes w: "100 \<le> frame_width s" and h: "100 \<le> frame_height s"
    and no_time: "now_check f2 - now_stamp f1 \<le> target_reached_cooldown"
  shows "(\<exists>s1 s2 nav d.
            navigate rnd f1 s v t = Inr (s1, nav, d) \<and>
            navigate rnd f2 s1 v t = Inr (s2, nav, d) \<and>
            draws s2 \<le> draws s + 2 \<and>
            (draws s1 = draws s + 2 \<longrightarrow> s2 = s1)) \<and>
         (\<forall>cv s0 f s' out. frame_step cv rnd s0 f = Inr (s', out) \<longrightarrow>
            draws s' \<le>
              (if initialized s0 \<and> target s0 \<noteq> None then draws s0 else draws s0 + 2) + 2)"
proof -
  from navigate_total [OF w h, of rnd f1 v t] obtain s1 nav d where
    n1: "navigate rnd f1 s v t = Inr (s1, nav, d)" and
    s1: "s1 = s \<or>
         (\<exists>t'. new_random_target rnd (draws s) (frame_width s) (frame_height s) 50 = Inr t' \<and>
               s1 = s\<lparr>target_reached_time := now_stamp f1, target := Some t',
                       draws := draws s + 2\<rparr>)"
    by blast
  from s1 w h have dims1: "100 \<le> frame_width s1" "100 \<le> frame_height s1" by auto
  from navigate_total [OF dims1, of rnd f2 v t] obtain s2 nav2 d2 where
    n2: "navigate rnd f2 s1 v t = Inr (s2, nav2, d2)" and
    s2: "s2 = s1 \<or>
         (\<exists>t'. new_random_target rnd (draws s1) (frame_width s1) (frame_height s1) 50 = Inr t' \<and>
               s2 = s1\<lparr>target_reached_time := now_stamp f2, target := Some t',
                        draws := draws s1 + 2\<rparr>)"
    by blast
  from navigate_output [OF n1 n2] have same: "nav2 = nav" "d2 = d" by simp_all
  have once: "s2 = s1" if "draws s1 = draws s + 2"
  proof -
    from that s1 have "target_reached_time s1 = now_stamp f1" by auto
    with no_time have "\<not> now_check f2 - target_reached_time s1 > target_reached_cooldown"
      by simp
    from reach_gate_closed [OF this, of rnd] navigate_state [OF n2] show ?thesis by auto
  qed
  have "draws s2 \<le> draws s + 2"
  proof (cases "draws s1 = draws s + 2")
    case True
    with once show ?thesis by simp
  next
    case False
    with s1 have "s1 = s" by auto
    with s2 show ?thesis by auto
  qed
  with n1 n2 same once have first: "\<exists>s1 s2 nav d.
            navigate rnd f1 s v t = Inr (s1, nav, d) \<and>
            navigate rnd f2 s1 v t = Inr (s2, nav, d) \<and>
            draws s2 \<le> draws s + 2 \<and>
            (draws s1 = draws s + 2 \<longrightarrow> s2 = s1)"
    by blast
  show ?thesis
    using first frame_step_draws by blast
qed

theorem navigator_idempotent_witness:
  "navigate sample_rnd (camera [] (10009 / 10)) (tracking (320, 240) 1000)
     (at_centroid 320 240) (320, 240) =
   Inr (\<lparr>initialized = True, target = Some (67, 74), target_reached_time = 10009 / 10,
          frame_height = 480, frame_width = 640, draws = 4\<rparr>, ''Target Reached'', Some 0) \<and>
   navigate sample_rnd (camera [] (10009 / 10))
     \<lparr>initialized = True, target = Some (67, 74), target_reached_time = 10009 / 10,
       frame_height = 480, frame_width = 640, draws = 4\<rparr>
     (at_centroid 320 240) (320, 240) =
   Inr (\<lparr>initialized = True, target = Some (67, 74), target_reached_time = 10009 / 10,
          frame_height = 480, frame_width = 640, draws = 4\<rparr>, ''Target Reached'', Some 0)"
proof -
  let ?f = "camera [] (10009 / 10)"
  let ?s = "tracking (320, 240) 1000"
  have w: "100 \<le> frame_width ?s" and h: "100 \<le> frame_height ?s"
    by (simp_all add: tracking_def)
  have nt: "now_check ?f - now_stamp ?f \<le> target_reached_cooldown"
    by (simp add: camera_def target_reached_cooldown_def)
  show ?thesis
    using navigator_idempotent [OF w h nt, of sample_rnd "at_centroid 320 240" "(320, 240)"]
    by (simp add: run_simps)
qed

subsection \<open>The first reach of a run\<close>

lemma frame_step_timestamp:
  assumes step: "frame_step cv rnd s f = Inr (s', out)"
    and other: "nav_instruction out \<noteq> ''Target Reached''"
  shows "target_reached_time s' = target_reached_time s"
proof -
  from frame_step_InrD [OF step] obtain s1 frm0 hsv s2 v s3 t nav d where
    ini: "init_target rnd s (frame f) = Inr (s1, frm0)" and
    det: "detect_colors cv (mirror frm0) hsv colors s1 frame_defaults = Inr (s2, v)" and
    ens: "ensure_target rnd s2 = Inr (s3, t)" and
    nav: "navigate rnd f s3 v t = Inr (s', nav, d)" and
    out: "out = \<lparr>shown_direction = direction v, shown_color = detected_color v,
                  nav_instruction = nav, dist = d, shown_target = t,
                  centroid = (case (cx v, cy v) of (Some a, Some b) \<Rightarrow> Some (a, b) | _ \<Rightarrow> None)\<rparr>"
    by blast
  from out other have "nav \<noteq> ''Target Reached''" by simp
  with navigate_state [OF nav] have "s' = s3" by simp
  moreover from detect_colors_Inr [OF det]
  have "target_reached_time s2 = target_reached_time s1" by auto
  ultimately show ?thesis
    using init_target_Inr [OF ini] ensure_target_Inr [OF ens] by simp
qed

lemma run_timestamp:
  assumes "run cv rnd s fs = Inr (s', ds, running)"
    and "\<forall>d \<in> set ds. nav_instruction d \<noteq> ''Target Reached''"
  shows "target_reached_time s' = target_reached_time s"
  using assms
proof (induction fs arbitrary: s ds)
  case Nil
  then show ?case by simp
next
  case (Cons f fs)
  show ?case
  proof (cases "ret f")
    case False
    with Cons.prems show ?thesis by simp
  next
    case True
    with Cons.prems(1) obtain s1 d1 where st: "frame_step cv rnd s f = Inr (s1, d1)"
      by (auto split: sum.splits)
    show ?thesis
    proof (cases "key f AND 255 = 113")
      case q: True
      with True st Cons.prems have "s' = s1" "ds = [d1]" by simp_all
      with Cons.prems(2) frame_step_timestamp [OF st] show ?thesis by simp
    next
      case q: False
      with True st Cons.prems(1) obtain ds1 where
        r: "run cv rnd s1 fs = Inr (s', ds1, running)" and ds: "ds = d1 # ds1"
        by (auto split: sum.splits)
      from Cons.prems(2) ds have "nav_instruction d1 \<noteq> ''Target Reached''"
        and rest: "\<forall>d \<in> set ds1. nav_instruction d \<noteq> ''Target Reached''" by simp_all
      from frame_step_timestamp [OF st this(1)] Cons.IH [OF r rest] show ?thesis by simp
    qed
  qed
qed

text \<open>
  C10. The timestamp starts at 0 and only a registered reach changes it. So on the first
  frame of a run whose instruction is \<open>Target Reached\<close> it is still 0, the gate is open
  as soon as the clock reads more than 0.8 (seconds since 1970, for
  \<^verbatim>\<open>time.time()\<close>), and the target is replaced on that very frame.
\<close>

theorem first_reach_not_delayed:
  assumes run: "run cv rnd initial_tracker fs = Inr (s, ds, True)"
    and before: "\<forall>d \<in> set ds. nav_instruction d \<noteq> ''Target Reached''"
    and step: "frame_step cv rnd s f = Inr (s', out)"
    and reached: "nav_instruction out = ''Target Reached''"
    and clock: "target_reached_cooldown < now_check f"
  defines "i \<equiv> (if initialized s \<and> target s \<noteq> None then draws s else draws s + 2)"
  shows "target_reached_time initial_tracker = 0 \<and> target_reached_time s = 0 \<and>
         now_check f - target_reached_time s > target_reached_cooldown \<and>
         target_reached_time s' = now_stamp f \<and> draws s' = i + 2 \<and>
         (\<exists>t'. new_random_target rnd i (frame_width s') (frame_height s') 50 = Inr t' \<and>
               target s' = Some t')"
proof -
  have t0: "target_reached_time initial_tracker = 0" by (simp add: initial_tracker_def)
  with run_timestamp [OF run before] have ts: "target_reached_time s = 0" by simp
  from frame_step_reached [OF step reached] obtain s3 where
    gate: "reach_gate rnd f s3 = Inr s'" and
    trt3: "target_reached_time s3 = target_reached_time s" and
    draws3: "draws s3 = i"
    unfolding i_def by blast
  from clock ts trt3 have "now_check f - target_reached_time s3 > target_reached_cooldown"
    by simp
  from reach_gate_open [OF gate this] draws3 t0 ts clock show ?thesis by auto
qed

lemma sample_run_before:
  "run sample_cv centre_rnd initial_tracker [camera (uniform_frame grey_pixel) 5000] =
   Inr (\<lparr>initialized = True, target = Some (320, 240), target_reached_time = 0,
          frame_height = 480, frame_width = 640, draws = 2\<rparr>,
        [\<lparr>shown_direction = ''No Object Detected'', shown_color = None,
           nav_instruction = ''No object to navigate'', dist = None,
           shown_target = (320, 240), centroid = None\<rparr>],
        True)"
  by (simp add: run_simps centre_rnd_def)

lemma sample_step_first_reach:
  "frame_step sample_cv centre_rnd
     \<lparr>initialized = True, target = Some (320, 240), target_reached_time = 0,
       frame_height = 480, frame_width = 640, draws = 2\<rparr>
     (camera (uniform_frame green_pixel) 5001) =
   Inr (\<lparr>initialized = True, target = Some (240, 240), target_reached_time = 5001,
          frame_height = 480, frame_width = 640, draws = 4\<rparr>,
        \<lparr>shown_direction = ''Move Forward'', shown_color = Some ''Green'',
          nav_instruction = ''Target Reached'', dist = Some 0,
          shown_target = (320, 240), centroid = Some (320, 240)\<rparr>)"
  by (simp add: run_simps centre_rnd_def)

theorem first_reach_not_delayed_witness:
  "run sample_cv centre_rnd initial_tracker [camera (uniform_frame grey_pixel) 5000] =
   Inr (\<lparr>initialized = True, target = Some (320, 240), target_reached_time = 0,
          frame_height = 480, frame_width = 640, draws = 2\<rparr>,
        [\<lparr>shown_direction = ''No Object Detected'', shown_color = None,
           nav_instruction = ''No object to navigate'', dist = None,
           shown_target = (320, 240), centroid = None\<rparr>],
        True) \<and>
   frame_step sample_cv centre_rnd
     \<lparr>initialized = True, target = Some (320, 240), target_reached_time = 0,
       frame_height = 480, frame_width = 640, draws = 2\<rparr>
     (camera (uniform_frame green_pixel) 5001) =
   Inr (\<lparr>initialized = True, target = Some (240, 240), target_reached_time = 5001,
          frame_height = 480, frame_width = 640, draws = 4\<rparr>,
        \<lparr>shown_direction = ''Move Forward'', shown_color = Some ''Green'',
          nav_instruction = ''Target Reached'', dist = Some 0,
          shown_target = (320, 240), centroid = Some (320, 240)\<rparr>) \<and>
   target_reached_cooldown < now_check (camera (uniform_frame green_pixel) 5001) \<and>
   new_random_target centre_rnd 2 640 480 50 = Inr (240, 240)"
proof -
  have before: "\<forall>d \<in> set [\<lparr>shown_direction = ''No Object Detected'', shown_color = None,
           nav_instruction = ''No object to navigate'', dist = None,
           shown_target = (320, 240), centroid = None\<rparr>].
         nav_instruction d \<noteq> ''Target Reached''"
    by simp
  have reached: "nav_instruction \<lparr>shown_direction = ''Move Forward'', shown_color = Some ''Green'',
          nav_instruction = ''Target Reached'', dist = Some 0,
          shown_target = (320, 240), centroid = Some (320, 240)\<rparr> = ''Target Reached''"
    by simp
  have clock: "target_reached_cooldown < now_check (camera (uniform_frame green_pixel) 5001)"
    by (simp add: target_reached_cooldown_def camera_def)
  show ?thesis
    using first_reach_not_delayed [OF sample_run_before before sample_step_first_reach
        reached clock]
      sample_run_before sample_step_first_reach clock
    by simp
qed

end
